theory Spec2Isabelle
  imports Main "HOL-Library.AList"
begin

section \<open>Values, exceptions and results\<close>

text \<open>
  The observable core of the framework lives in
  \<^verbatim>\<open>framework/observable/contextmanager/contextmanager.ts\<close>. Its functions work on
  JavaScript values, on objects that are changed in place, and on three process-wide
  tables. The model makes all of that explicit: a \<open>world\<close> holds the heap, the
  \<open>ContextManager\<close> objects, the static tables and a trace of the calls made to
  application callbacks; every function takes a world and returns the world it leaves
  together with what it returned or threw.

  Numbers are integers or \<open>NaN\<close>; functions are not values of the model. Objects and
  arrays are references into the heap, so that strict equality on them is equality of
  references.
\<close>

type_synonym addr = nat
type_synonym mgr_id = nat

datatype jsval = VUndefined | VNull | VBool bool | VNum int | VNaN | VStr string | VRef addr

text \<open>The operator \<^verbatim>\<open>===\<close>: \<open>NaN\<close> is not equal to itself.\<close>

definition strict_eq :: "jsval \<Rightarrow> jsval \<Rightarrow> bool" where
  "strict_eq a b = (a = b \<and> a \<noteq> VNaN)"

text \<open>
  \<open>TypeError\<close> is what the runtime throws (a property read on \<open>null\<close>, a
  \<open>defineProperty\<close> that is refused); \<open>CallbackError n\<close> is the exception thrown by the
  application callback \<open>n\<close>.
\<close>

datatype exn = TypeError | CallbackError nat

datatype 'a result = Returned 'a | Thrown exn

section \<open>Listeners, events and the trace\<close>

text \<open>
  An \<open>IListener\<close> is \<^verbatim>\<open>{uid, listener}\<close>. The listener function is either a callback of
  the application, known by a number, or the arrow function that \<open>observe\<close> builds for
  an array's \<open>length\<close>, which calls \<open>observeArray(uid, noop, join, newValue, oldValue)\<close>.
\<close>

datatype listener_fn = Callback nat | ReobserveArray string string

record IListener =
  uid :: string
  listener :: listener_fn

text \<open>The callback of \<open>observeArray\<close>: a callback of the application, or \<open>noop\<close>.\<close>

datatype array_listener = ArrayCallback nat | Noop

record IArrayMethodInfo =
  method' :: string
  returnValue :: jsval
  oldArray :: jsval
  newArray :: jsval
  arguments :: "jsval list"

text \<open>
  The trace records, in order, every call of a listener (with the identifier it was
  dispatched for), every call of an array callback (with the uid it is registered under)
  and every warning given to \<open>$ExceptionStatic.warn\<close>.
\<close>

datatype event =
    Notified string nat jsval jsval
  | ArrayNotified string array_listener IArrayMethodInfo
  | Warned string

section \<open>Objects\<close>

text \<open>
  A property is a data property or one of the accessor pairs that \<open>__defineObject\<close> and
  \<open>__definePrimitive\<close> install. Both closures of a pair share the captured \<open>value\<close>,
  the \<open>identifier\<close>, the manager (\<open>this\<close>) and, for \<open>__definePrimitive\<close>, the flag
  \<open>isDefined\<close>; \<open>immediateContext\<close> and \<open>key\<close> are the object and key the property sits
  at.
\<close>

datatype accessor_kind = ObjectAccessor | PrimitiveAccessor bool

record accessor =
  acc_manager :: mgr_id
  acc_identifier :: string
  acc_value :: jsval
  acc_kind :: accessor_kind

datatype slot = Data jsval bool | Accessor accessor

record property =
  slot :: slot
  enumerable :: bool
  configurable :: bool

text \<open>
  The instrumented methods of an observed array: the manager and identifier their
  closures hold, and whether they sit on a prototype object of the array's own or are
  own properties of the array.
\<close>

record instrumentation =
  ins_manager :: mgr_id
  ins_identifier :: string
  ins_via_prototype :: bool

record jsobject =
  is_array :: bool
  props :: "string \<rightharpoonup> property"
  arr_length :: nat
  wrapper :: "instrumentation option"

section \<open>The manager and the world\<close>

text \<open>The fields of a \<open>ContextManager\<close>; \<open>context'\<close> is its field \<open>context\<close>.\<close>

record manager =
  context' :: jsval
  identifiers :: "string \<rightharpoonup> IListener list"
  identifierHash :: "string \<rightharpoonup> string list"
  contextObjects :: "string \<rightharpoonup> jsval"
  isArrayFunction :: bool
  observedIdentifier :: "string option"

text \<open>\<open>new ContextManager()\<close>.\<close>

definition new_manager :: manager where
  "new_manager =
     \<lparr>context' = VUndefined, identifiers = Map.empty, identifierHash = Map.empty,
      contextObjects = Map.empty, isArrayFunction = False, observedIdentifier = None\<rparr>"

text \<open>
  \<open>$compat\<close> is declared outside this file; its two flags are taken as they are.
\<close>

record compat =
  proto :: bool
  setProto :: bool

text \<open>
  \<open>instances\<close> holds the manager objects by identity. \<open>managers\<close>, \<open>controls\<close> and
  \<open>observedArrayListeners\<close> are the three static tables; a remove listener in
  \<open>controls\<close> is \<open>_removeCallback\<close> bound to a manager, so it is kept as that manager's
  identity. The tables whose keys the code enumerates with \<open>Object.keys\<close> are
  association lists in insertion order. \<open>faulty n\<close> says that callback \<open>n\<close> throws when
  it is called.
\<close>

record world =
  heap :: "addr \<rightharpoonup> jsobject"
  next_addr :: addr
  instances :: "mgr_id \<Rightarrow> manager"
  managers :: "string \<rightharpoonup> mgr_id"
  controls :: "string \<rightharpoonup> (string \<times> mgr_id list) list"
  observedArrayListeners :: "(string \<times> (string \<times> array_listener) list) list"
  compat :: compat
  faulty :: "nat \<Rightarrow> bool"
  trace :: "event list"

definition update_manager :: "world \<Rightarrow> mgr_id \<Rightarrow> (manager \<Rightarrow> manager) \<Rightarrow> world" where
  "update_manager w mid f = w\<lparr>instances := (instances w)(mid := f (instances w mid))\<rparr>"

definition andThen ::
  "world \<times> 'a result \<Rightarrow> (world \<Rightarrow> 'a \<Rightarrow> world \<times> 'b result) \<Rightarrow> world \<times> 'b result" where
  "andThen r f = (case r of (w, Returned x) \<Rightarrow> f w x | (w, Thrown e) \<Rightarrow> (w, Thrown e))"

section \<open>Helpers declared outside the file\<close>

text \<open>
  Modelled from the spec: \<open>isNull\<close>, \<open>isUndefined\<close>, \<open>isObject\<close>, \<open>isArray\<close> and
  \<open>isEmpty\<close> are utilities of the framework that are not in this file; they are
  modelled as the framework's unit tests use them: \<open>isNull\<close> holds of \<open>null\<close> and
  \<open>undefined\<close>, \<open>isObject\<close> of every object (arrays too), \<open>isEmpty\<close> of \<open>null\<close>,
  \<open>undefined\<close>, the empty string and the empty array.
\<close>

definition isNull :: "jsval \<Rightarrow> bool" where
  "isNull v = (v = VNull \<or> v = VUndefined)"

definition isUndefined :: "jsval \<Rightarrow> bool" where
  "isUndefined v = (v = VUndefined)"

definition isObject :: "jsval \<Rightarrow> bool" where
  "isObject v = (case v of VRef a \<Rightarrow> True | _ \<Rightarrow> False)"

definition isArray :: "world \<Rightarrow> jsval \<Rightarrow> bool" where
  "isArray w v =
     (case v of
        VRef a \<Rightarrow> (case heap w a of Some ob \<Rightarrow> is_array ob | None \<Rightarrow> False)
      | _ \<Rightarrow> False)"

definition isEmpty_string :: "string \<Rightarrow> bool" where
  "isEmpty_string s = (s = [])"

definition isNull_listeners :: "IListener list option \<Rightarrow> bool" where
  "isNull_listeners ls = (ls = None)"

definition isEmpty_listeners :: "IListener list option \<Rightarrow> bool" where
  "isEmpty_listeners ls = (case ls of None \<Rightarrow> True | Some xs \<Rightarrow> xs = [])"

section \<open>Strings\<close>

text \<open>\<^verbatim>\<open>s.split('.')\<close> and \<^verbatim>\<open>xs.join('.')\<close>.\<close>

fun split_dot :: "string \<Rightarrow> string list" where
  "split_dot [] = [[]]"
| "split_dot (c # cs) =
     (if c = CHR ''.'' then [] # split_dot cs
      else (case split_dot cs of [] \<Rightarrow> [[c]] | s # ss \<Rightarrow> (c # s) # ss))"

fun join_dot :: "string list \<Rightarrow> string" where
  "join_dot [] = []"
| "join_dot [s] = s"
| "join_dot (s # t # ss) = s @ ''.'' @ join_dot (t # ss)"

text \<open>The decimal name of an array index, and the index a property key names.\<close>

function show_nat :: "nat \<Rightarrow> string" where
  "show_nat n =
     (if n < 10 then [''0123456789'' ! n]
      else show_nat (n div 10) @ [''0123456789'' ! (n mod 10)])"
  by pat_completeness auto
termination
  by (relation "measure (\<lambda>n. n)") auto

declare show_nat.simps [simp del]

definition digit_value :: "char \<Rightarrow> nat option" where
  "digit_value c = map_of (zip ''0123456789'' [0 ..< 10]) c"

fun parse_digits :: "nat \<Rightarrow> string \<Rightarrow> nat option" where
  "parse_digits acc [] = Some acc"
| "parse_digits acc (c # cs) =
     (case digit_value c of None \<Rightarrow> None | Some d \<Rightarrow> parse_digits (acc * 10 + d) cs)"

definition parse_index :: "string \<Rightarrow> nat option" where
  "parse_index s =
     (if s = [] then None
      else (case parse_digits 0 s of
              None \<Rightarrow> None
            | Some n \<Rightarrow> if show_nat n = s \<and> n < 4294967295 then Some n else None))"

section \<open>Reading and defining properties\<close>

text \<open>
  Reading a property that is one of the manager's accessor pairs runs the getter, which
  stores the pair's identifier in \<open>__observedIdentifier\<close> of its manager. Reading from
  \<open>null\<close> or \<open>undefined\<close> throws. Members inherited from \<open>Object.prototype\<close> and
  \<open>Array.prototype\<close> are not properties of the model's objects.
\<close>

definition property_value :: "property \<Rightarrow> jsval" where
  "property_value p = (case slot p of Data v wr \<Rightarrow> v | Accessor acc \<Rightarrow> acc_value acc)"

definition touch :: "world \<Rightarrow> property \<Rightarrow> world" where
  "touch w p =
     (case slot p of
        Data v wr \<Rightarrow> w
      | Accessor acc \<Rightarrow>
          update_manager w (acc_manager acc)
            (\<lambda>m. m\<lparr>observedIdentifier := Some (acc_identifier acc)\<rparr>))"

definition get_own :: "world \<Rightarrow> jsobject \<Rightarrow> string \<Rightarrow> world \<times> jsval" where
  "get_own w ob key =
     (if is_array ob \<and> key = ''length'' then (w, VNum (int (arr_length ob)))
      else (case props ob key of
              None \<Rightarrow> (w, VUndefined)
            | Some p \<Rightarrow> (touch w p, property_value p)))"

definition get_prop :: "world \<Rightarrow> jsval \<Rightarrow> string \<Rightarrow> world \<times> jsval result" where
  "get_prop w v key =
     (case v of
        VUndefined \<Rightarrow> (w, Thrown TypeError)
      | VNull \<Rightarrow> (w, Thrown TypeError)
      | VRef a \<Rightarrow>
          (case heap w a of
             None \<Rightarrow> (w, Returned VUndefined)
           | Some ob \<Rightarrow> (case get_own w ob key of (w', x) \<Rightarrow> (w', Returned x)))
      | VStr s \<Rightarrow>
          (w, Returned
                (if key = ''length'' then VNum (int (length s))
                 else (case parse_index key of
                         None \<Rightarrow> VUndefined
                       | Some i \<Rightarrow> if i < length s then VStr [s ! i] else VUndefined)))
      | _ \<Rightarrow> (w, Returned VUndefined))"

text \<open>
  \<open>Object.defineProperty\<close>, for the two descriptors the file uses. A new property takes
  the defaults for what the descriptor leaves out; a configurable property is changed,
  keeping what the descriptor leaves out (a data property that replaces an accessor is
  not writable); a property that is not configurable refuses a change of its attributes
  or kind. An index beyond an array's length extends the array. The model refuses every
  redefinition of an array's \<open>length\<close>; no function of the file attempts one.
\<close>

definition put_property :: "jsobject \<Rightarrow> string \<Rightarrow> property \<Rightarrow> jsobject" where
  "put_property ob key p =
     ob\<lparr>props := (props ob)(key \<mapsto> p),
        arr_length :=
          (if is_array ob
           then (case parse_index key of
                   None \<Rightarrow> arr_length ob
                 | Some i \<Rightarrow> max (arr_length ob) (Suc i))
           else arr_length ob)\<rparr>"

definition define_data :: "jsobject \<Rightarrow> string \<Rightarrow> jsval \<Rightarrow> bool \<Rightarrow> bool \<Rightarrow> jsobject option" where
  "define_data ob key v e c =
     (if is_array ob \<and> key = ''length'' then None
      else (case props ob key of
              None \<Rightarrow>
                Some (put_property ob key \<lparr>slot = Data v False, enumerable = e, configurable = c\<rparr>)
            | Some p \<Rightarrow>
                if configurable p
                then Some (put_property ob key
                       \<lparr>slot = Data v (case slot p of Data old wr \<Rightarrow> wr | Accessor acc \<Rightarrow> False),
                        enumerable = e, configurable = c\<rparr>)
                else if c \<or> e \<noteq> enumerable p then None
                else (case slot p of
                        Accessor acc \<Rightarrow> None
                      | Data old wr \<Rightarrow>
                          if wr \<or> old = v
                          then Some (put_property ob key
                                 \<lparr>slot = Data v wr, enumerable = e, configurable = c\<rparr>)
                          else None)))"

definition define_accessor :: "jsobject \<Rightarrow> string \<Rightarrow> accessor \<Rightarrow> jsobject option" where
  "define_accessor ob key acc =
     (if is_array ob \<and> key = ''length'' then None
      else (case props ob key of
              None \<Rightarrow>
                Some (put_property ob key
                  \<lparr>slot = Accessor acc, enumerable = False, configurable = True\<rparr>)
            | Some p \<Rightarrow>
                if configurable p
                then Some (put_property ob key
                       \<lparr>slot = Accessor acc, enumerable = enumerable p, configurable = True\<rparr>)
                else None))"

definition redefine ::
  "world \<Rightarrow> jsval \<Rightarrow> (jsobject \<Rightarrow> jsobject option) \<Rightarrow> world \<times> unit result" where
  "redefine w target f =
     (case target of
        VRef a \<Rightarrow>
          (case heap w a of
             None \<Rightarrow> (w, Thrown TypeError)
           | Some ob \<Rightarrow>
               (case f ob of
                  None \<Rightarrow> (w, Thrown TypeError)
                | Some ob' \<Rightarrow> (w\<lparr>heap := (heap w)(a \<mapsto> ob')\<rparr>, Returned ())))
      | _ \<Rightarrow> (w, Thrown TypeError))"

text \<open>The static helper \<open>defineProperty(obj, key, value, enumerable, configurable)\<close>.\<close>

definition defineProperty ::
  "world \<Rightarrow> jsval \<Rightarrow> string \<Rightarrow> jsval \<Rightarrow> bool \<Rightarrow> bool \<Rightarrow> world \<times> unit result" where
  "defineProperty w obj key v e c = redefine w obj (\<lambda>ob. define_data ob key v e c)"

section \<open>The listener registry\<close>

definition hasIdentifier :: "manager \<Rightarrow> string \<Rightarrow> bool" where
  "hasIdentifier m identifier = (\<not> isEmpty_listeners (identifiers m identifier))"

text \<open>
  The loop of \<open>_removeCallback\<close>: \<open>i\<close> runs from the last index down to \<open>0\<close> and every
  callback whose uid matches is spliced out. The second argument is \<open>i + 1\<close>.
\<close>

fun splice_matching :: "IListener list \<Rightarrow> nat \<Rightarrow> string \<Rightarrow> IListener list" where
  "splice_matching callbacks 0 u = callbacks"
| "splice_matching callbacks (Suc i) u =
     splice_matching
       (if uid (callbacks ! i) = u then take i callbacks @ drop (Suc i) callbacks
        else callbacks) i u"

definition removeCallback :: "manager \<Rightarrow> string \<Rightarrow> string \<Rightarrow> manager" where
  "removeCallback m identifier u =
     (case identifiers m identifier of
        None \<Rightarrow> m
      | Some callbacks \<Rightarrow>
          (let callbacks' = splice_matching callbacks (length callbacks) u;
               m1 = m\<lparr>identifiers := (identifiers m)(identifier \<mapsto> callbacks')\<rparr>
           in if isEmpty_listeners (identifiers m1 identifier)
              then m1\<lparr>identifierHash := (identifierHash m1)(identifier := None),
                      contextObjects := (contextObjects m1)(identifier := None)\<rparr>
              else m1))"

text \<open>
  \<open>__addHashValues\<close>: the first segment is handled before the loop, the longer prefixes
  in the loop.
\<close>

fun addHashValues_loop ::
  "(string \<rightharpoonup> string list) \<Rightarrow> string \<Rightarrow> string \<Rightarrow> string list \<Rightarrow> (string \<rightharpoonup> string list)" where
  "addHashValues_loop h identifier ident [] = h"
| "addHashValues_loop h identifier ident (s # split) =
     (let ident' = ident @ ''.'' @ s;
          hashValue = (case h ident' of None \<Rightarrow> [] | Some hv \<Rightarrow> hv);
          hashValue' = (if ident' \<noteq> identifier then hashValue @ [identifier] else hashValue)
      in addHashValues_loop (h(ident' \<mapsto> hashValue')) identifier ident' split)"

definition addHashValues :: "manager \<Rightarrow> string \<Rightarrow> manager" where
  "addHashValues m identifier =
     (case split_dot identifier of
        [] \<Rightarrow> m
      | ident # split \<Rightarrow>
          (case identifierHash m ident of
             None \<Rightarrow>
               if split = [] then m\<lparr>identifierHash := (identifierHash m)(ident \<mapsto> [])\<rparr>
               else m\<lparr>identifierHash :=
                        addHashValues_loop ((identifierHash m)(ident \<mapsto> [identifier]))
                          identifier ident split\<rparr>
           | Some hashValue \<Rightarrow>
               m\<lparr>identifierHash :=
                    addHashValues_loop ((identifierHash m)(ident \<mapsto> hashValue @ [identifier]))
                      identifier ident split\<rparr>))"

text \<open>\<open>__add\<close>.\<close>

definition add :: "manager \<Rightarrow> string \<Rightarrow> IListener \<Rightarrow> manager" where
  "add m identifier observableListener =
     (let callbacks = (case identifiers m identifier of None \<Rightarrow> [] | Some cbs \<Rightarrow> cbs);
          m1 = m\<lparr>identifiers := (identifiers m)(identifier \<mapsto> callbacks @ [observableListener])\<rparr>
      in if identifierHash m1 identifier = None then addHashValues m1 identifier else m1)"

text \<open>The static \<open>pushRemoveListener\<close> and \<open>removeIdentifier\<close>, on \<open>__controls\<close>.\<close>

definition pushRemoveListener :: "world \<Rightarrow> string \<Rightarrow> string \<Rightarrow> mgr_id \<Rightarrow> world" where
  "pushRemoveListener w identifier u remove =
     (let control = (case controls w u of None \<Rightarrow> [] | Some c \<Rightarrow> c);
          listeners = (case map_of control identifier of None \<Rightarrow> [] | Some ls \<Rightarrow> ls)
      in w\<lparr>controls := (controls w)(u \<mapsto> AList.update identifier (listeners @ [remove]) control)\<rparr>)"

fun removeIdentifier :: "world \<Rightarrow> string list \<Rightarrow> string \<Rightarrow> world" where
  "removeIdentifier w [] identifier = w"
| "removeIdentifier w (u # uids) identifier =
     (case controls w u of
        None \<Rightarrow> removeIdentifier w uids identifier
      | Some ids \<Rightarrow>
          removeIdentifier (w\<lparr>controls := (controls w)(u \<mapsto> AList.delete identifier ids)\<rparr>)
            uids identifier)"

text \<open>
  The functions that \<open>_addObservableListener\<close> and \<open>observe\<close> return. \<open>Remove mid u i\<close>
  is the closure of \<open>_addObservableListener\<close> over the manager, the uid and the
  identifier; \<open>Both\<close> is the closure of \<open>observe\<close> that calls two of them; \<open>NoopRemove\<close>
  is \<open>noop\<close>.
\<close>

datatype remove_listener =
    NoopRemove
  | Remove mgr_id string string
  | Both remove_listener remove_listener

fun call_remove :: "world \<Rightarrow> remove_listener \<Rightarrow> world" where
  "call_remove w NoopRemove = w"
| "call_remove w (Remove mid u absoluteIdentifier) =
     update_manager (removeIdentifier w [u] absoluteIdentifier) mid
       (\<lambda>m. removeCallback m absoluteIdentifier u)"
| "call_remove w (Both r1 r2) = call_remove (call_remove w r1) r2"

definition addObservableListener ::
  "world \<Rightarrow> mgr_id \<Rightarrow> string \<Rightarrow> IListener \<Rightarrow> world \<times> remove_listener" where
  "addObservableListener w mid absoluteIdentifier observableListener =
     (let u = uid observableListener;
          w1 = update_manager w mid (\<lambda>m. add m absoluteIdentifier observableListener);
          w2 = pushRemoveListener w1 absoluteIdentifier u mid
      in (w2, Remove mid u absoluteIdentifier))"

section \<open>Observing arrays\<close>

text \<open>
  \<open>observeArray\<close> first takes the instrumentation off \<open>oldArray\<close>, then registers the
  listener and instruments \<open>array\<close>. Where the runtime lets the prototype of an object be
  set, the seven methods sit on a prototype object made for the array; otherwise they
  are defined on the array itself, as properties that are not writable. The counter
  \<open>i\<close> is shared by the loops: when the loop that assigns the original methods to
  \<open>oldArray\<close> has run, the loop that defines the instrumented methods on \<open>array\<close> finds
  \<open>i\<close> at \<open>7\<close> and does nothing. The assignments of that first loop change nothing
  the model sees: the instrumented methods are not writable, and the file has no
  strict-mode directive.
\<close>

definition reset_prototype :: "world \<Rightarrow> jsval \<Rightarrow> world" where
  "reset_prototype w v =
     (case v of
        VRef a \<Rightarrow>
          (case heap w a of
             None \<Rightarrow> w
           | Some ob \<Rightarrow>
               (case wrapper ob of
                  None \<Rightarrow> w
                | Some ins \<Rightarrow>
                    if ins_via_prototype ins
                    then w\<lparr>heap := (heap w)(a \<mapsto> ob\<lparr>wrapper := None\<rparr>)\<rparr>
                    else w))
      | _ \<Rightarrow> w)"

definition set_prototype :: "world \<Rightarrow> jsval \<Rightarrow> mgr_id \<Rightarrow> string \<Rightarrow> world" where
  "set_prototype w v mid absoluteIdentifier =
     (case v of
        VRef a \<Rightarrow>
          (case heap w a of
             None \<Rightarrow> w
           | Some ob \<Rightarrow>
               (case wrapper ob of
                  Some ins \<Rightarrow>
                    if ins_via_prototype ins
                    then w\<lparr>heap := (heap w)(a \<mapsto> ob\<lparr>wrapper :=
                           Some \<lparr>ins_manager = mid, ins_identifier = absoluteIdentifier,
                                 ins_via_prototype = True\<rparr>\<rparr>)\<rparr>
                    else w
                | None \<Rightarrow>
                    w\<lparr>heap := (heap w)(a \<mapsto> ob\<lparr>wrapper :=
                      Some \<lparr>ins_manager = mid, ins_identifier = absoluteIdentifier,
                            ins_via_prototype = True\<rparr>\<rparr>)\<rparr>))
      | _ \<Rightarrow> w)"

definition define_methods :: "world \<Rightarrow> jsval \<Rightarrow> mgr_id \<Rightarrow> string \<Rightarrow> world \<times> unit result" where
  "define_methods w v mid absoluteIdentifier =
     redefine w v
       (\<lambda>ob. Some (ob\<lparr>wrapper :=
          Some \<lparr>ins_manager = mid, ins_identifier = absoluteIdentifier,
                ins_via_prototype = False\<rparr>\<rparr>))"

definition observeArray ::
  "world \<Rightarrow> mgr_id \<Rightarrow> string \<Rightarrow> array_listener \<Rightarrow> string \<Rightarrow> jsval \<Rightarrow> jsval
     \<Rightarrow> world \<times> unit result" where
  "observeArray w mid u lst absoluteIdentifier array oldArr =
     (let (w1, i) =
            (if \<not> isNull oldArr
             then (if setProto (compat w) then (reset_prototype w oldArr, 0::nat)
                   else if proto (compat w) then (reset_prototype w oldArr, 0)
                   else (w, 7))
             else (w, 0))
      in if isNull array then (w1, Returned ())
         else
           (let arrayCallbacks =
                  (case map_of (observedArrayListeners w1) absoluteIdentifier of
                     None \<Rightarrow> []
                   | Some cbs \<Rightarrow> cbs);
                w2 = w1\<lparr>observedArrayListeners :=
                          AList.update absoluteIdentifier (AList.update u lst arrayCallbacks)
                            (observedArrayListeners w1)\<rparr>
            in if proto (compat w)
               then (set_prototype w2 array mid absoluteIdentifier, Returned ())
               else if i < 7 then define_methods w2 array mid absoluteIdentifier
               else (w2, Returned ())))"

section \<open>Dispatch\<close>

text \<open>
  Calling one listener. A callback of the application is recorded in the trace and
  throws when it is faulty; what else it does is outside the model, and in particular
  it does not call back into the manager.
\<close>

definition call_listener ::
  "world \<Rightarrow> mgr_id \<Rightarrow> string \<Rightarrow> IListener \<Rightarrow> jsval \<Rightarrow> jsval \<Rightarrow> world \<times> unit result" where
  "call_listener w mid identifier l v oldValue =
     (case listener l of
        Callback n \<Rightarrow>
          (let w1 = w\<lparr>trace := trace w @ [Notified identifier n v oldValue]\<rparr>
           in if faulty w n then (w1, Thrown (CallbackError n)) else (w1, Returned ()))
      | ReobserveArray u join \<Rightarrow> observeArray w mid u Noop join v oldValue)"

text \<open>The loop of \<open>_execute\<close>: nothing in the model changes the list while it runs.\<close>

fun call_listeners ::
  "world \<Rightarrow> mgr_id \<Rightarrow> string \<Rightarrow> IListener list \<Rightarrow> jsval \<Rightarrow> jsval \<Rightarrow> world \<times> unit result" where
  "call_listeners w mid identifier [] v oldValue = (w, Returned ())"
| "call_listeners w mid identifier (l # ls) v oldValue =
     (case call_listener w mid identifier l v oldValue of
        (w1, Thrown e) \<Rightarrow> (w1, Thrown e)
      | (w1, Returned x) \<Rightarrow> call_listeners w1 mid identifier ls v oldValue)"

definition execute ::
  "world \<Rightarrow> mgr_id \<Rightarrow> string \<Rightarrow> jsval \<Rightarrow> jsval \<Rightarrow> world \<times> unit result" where
  "execute w mid identifier v oldValue =
     (let observableListeners = identifiers (instances w mid) identifier;
          w1 = update_manager w mid
                 (\<lambda>m. m\<lparr>contextObjects := (contextObjects m)(identifier \<mapsto> v)\<rparr>);
          w2 = (if isUndefined v
                then update_manager w1 mid
                       (\<lambda>m. m\<lparr>contextObjects := (contextObjects m)(identifier := None)\<rparr>)
                else w1)
      in case observableListeners of
           None \<Rightarrow> (w2, Returned ())
         | Some ls \<Rightarrow> call_listeners w2 mid identifier ls v oldValue)"

section \<open>Installing the accessors\<close>

definition defineObject :: "world \<Rightarrow> mgr_id \<Rightarrow> string \<Rightarrow> jsval \<Rightarrow> string \<Rightarrow> world \<times> unit result" where
  "defineObject w mid identifier immediateContext key =
     andThen (get_prop w immediateContext key)
       (\<lambda>w1 v. redefine w1 immediateContext
          (\<lambda>ob. define_accessor ob key
             \<lparr>acc_manager = mid, acc_identifier = identifier, acc_value = v,
              acc_kind = ObjectAccessor\<rparr>))"

definition definePrimitive :: "world \<Rightarrow> mgr_id \<Rightarrow> string \<Rightarrow> jsval \<Rightarrow> string \<Rightarrow> world \<times> unit result" where
  "definePrimitive w mid identifier immediateContext key =
     andThen (get_prop w immediateContext key)
       (\<lambda>w1 v.
          if isArray w1 immediateContext \<and> key = ''length'' then (w1, Returned ())
          else redefine w1 immediateContext
                 (\<lambda>ob. define_accessor ob key
                    \<lparr>acc_manager = mid, acc_identifier = identifier, acc_value = v,
                     acc_kind = PrimitiveAccessor (\<not> isNull v)\<rparr>))"

text \<open>\<open>_define\<close>.\<close>

definition define' :: "world \<Rightarrow> mgr_id \<Rightarrow> string \<Rightarrow> jsval \<Rightarrow> string \<Rightarrow> world \<times> unit result" where
  "define' w mid identifier immediateContext key =
     andThen (get_prop w immediateContext key)
       (\<lambda>w1 v.
          if isObject v \<or> isArray w1 v then defineObject w1 mid identifier immediateContext key
          else definePrimitive w1 mid identifier immediateContext key)"

section \<open>Notifying child properties\<close>

text \<open>
  \<open>_getValues\<close>: the loop runs while more than one segment is left; it returns \<open>null\<close>
  (\<open>None\<close>) when both walks have met \<open>null\<close> or \<open>undefined\<close>.
\<close>

fun getValues_loop ::
  "world \<Rightarrow> string list \<Rightarrow> jsval \<Rightarrow> jsval \<Rightarrow> bool \<Rightarrow> bool
     \<Rightarrow> world \<times> (string list \<times> jsval \<times> jsval) option result" where
  "getValues_loop w [] newRootContext oldRootContext doNew doOld =
     (w, Returned (Some ([], newRootContext, oldRootContext)))"
| "getValues_loop w [p] newRootContext oldRootContext doNew doOld =
     (w, Returned (Some ([p], newRootContext, oldRootContext)))"
| "getValues_loop w (property # q # split) newRootContext oldRootContext doNew doOld =
     (case (if doNew
            then andThen (get_prop w newRootContext property)
                   (\<lambda>w1 n. (w1, Returned (n, \<not> isNull n)))
            else (w, Returned (newRootContext, doNew))) of
        (w1, Thrown e) \<Rightarrow> (w1, Thrown e)
      | (w1, Returned (newRootContext', doNew')) \<Rightarrow>
          (case (if doOld
                 then andThen (get_prop w1 oldRootContext property)
                        (\<lambda>w2 ov. (w2, Returned (ov, \<not> isNull ov)))
                 else (w1, Returned (oldRootContext, doOld))) of
             (w2, Thrown e) \<Rightarrow> (w2, Thrown e)
           | (w2, Returned (oldRootContext', doOld')) \<Rightarrow>
               if \<not> (doNew' \<or> doOld') then (w2, Returned None)
               else getValues_loop w2 (q # split) newRootContext' oldRootContext' doNew' doOld'))"

definition getValues ::
  "world \<Rightarrow> string list \<Rightarrow> jsval \<Rightarrow> jsval \<Rightarrow> world \<times> (jsval \<times> jsval) option result" where
  "getValues w split newRootContext oldRootContext =
     andThen (getValues_loop w split newRootContext oldRootContext True True)
       (\<lambda>w1 r.
          case r of
            None \<Rightarrow> (w1, Returned None)
          | Some (split', newRoot, oldRoot) \<Rightarrow>
              (let property = (case split' of [] \<Rightarrow> ''undefined'' | p # ps \<Rightarrow> p)
               in andThen (if \<not> isNull newRoot then get_prop w1 newRoot property
                           else (w1, Returned VUndefined))
                    (\<lambda>w2 newValue.
                       andThen (if \<not> isNull oldRoot then get_prop w2 oldRoot property
                                else (w2, Returned VUndefined))
                         (\<lambda>w3 oldValue. (w3, Returned (Some (newValue, oldValue)))))))"

text \<open>
  The body of the loop of \<open>_notifyChildProperties\<close> for one binding; \<open>values\<close> is the
  local table of the parents already resolved. The result is the table after the
  iteration.
\<close>

definition child_of :: "world \<Rightarrow> jsval \<Rightarrow> string \<Rightarrow> jsval \<Rightarrow> world \<times> jsval result" where
  "child_of w parent key whenNull =
     (if isNull parent then (w, Returned whenNull) else get_prop w parent key)"

text \<open>
  The end of an iteration: the children are put in the table, the accessor is installed
  on the new parent and the listeners of the binding are called.
\<close>

definition notify_child ::
  "world \<Rightarrow> mgr_id \<Rightarrow> string \<Rightarrow> string \<Rightarrow> string \<Rightarrow> (string \<rightharpoonup> jsval \<times> jsval)
     \<Rightarrow> jsval \<Rightarrow> jsval \<Rightarrow> jsval \<Rightarrow> world \<times> (string \<rightharpoonup> jsval \<times> jsval) result" where
  "notify_child w mid binding property key values newParent newChild oldChild =
     andThen (if \<not> (isNull newParent \<or> isUndefined newChild)
              then define' w mid binding newParent key
              else (w, Returned ()))
       (\<lambda>w1 x. andThen (execute w1 mid binding newChild oldChild)
          (\<lambda>w2 y. (w2, Returned (values(property \<mapsto> (newChild, oldChild))))))"

text \<open>
  The branch for a binding whose parent is below the changed value, once \<open>value\<close> has
  been looked up in the table or computed by \<open>_getValues\<close>.
\<close>

definition notify_resolved ::
  "world \<Rightarrow> mgr_id \<Rightarrow> string \<Rightarrow> string \<Rightarrow> string \<Rightarrow> string \<Rightarrow> (string \<rightharpoonup> jsval \<times> jsval)
     \<Rightarrow> (jsval \<times> jsval) option \<Rightarrow> world \<times> (string \<rightharpoonup> jsval \<times> jsval) result" where
  "notify_resolved w mid binding property key parentProperty values v =
     (case v of
        None \<Rightarrow>
          andThen (execute w mid binding VNull VNull) (\<lambda>w1 x. (w1, Returned values))
      | Some (newParent, oldParent) \<Rightarrow>
          andThen (child_of w newParent key VNull)
            (\<lambda>w1 newChild. andThen (child_of w1 oldParent key VNull)
               (\<lambda>w2 oldChild.
                  notify_child w2 mid binding property key
                    (values(parentProperty \<mapsto> (newParent, oldParent)))
                    newParent newChild oldChild)))"

definition notify_binding ::
  "world \<Rightarrow> mgr_id \<Rightarrow> nat \<Rightarrow> jsval \<Rightarrow> jsval \<Rightarrow> (string \<rightharpoonup> jsval \<times> jsval) \<Rightarrow> string
     \<Rightarrow> world \<times> (string \<rightharpoonup> jsval \<times> jsval) result" where
  "notify_binding w mid start newValue oldValue values binding =
     (let property = drop start binding;
          key = last (split_dot property);
          split = butlast (split_dot property);
          parentProperty = join_dot split
      in if isEmpty_string parentProperty
         then andThen (child_of w newValue key newValue)
                (\<lambda>w1 newChild. andThen (child_of w1 oldValue key oldValue)
                   (\<lambda>w2 oldChild.
                      notify_child w2 mid binding property key values
                        newValue newChild oldChild))
         else andThen (case values parentProperty of
                         Some v \<Rightarrow> (w, Returned (Some v))
                       | None \<Rightarrow> getValues w split newValue oldValue)
                (\<lambda>w1 v. notify_resolved w1 mid binding property key parentProperty values v))"

fun notify_bindings ::
  "world \<Rightarrow> mgr_id \<Rightarrow> nat \<Rightarrow> jsval \<Rightarrow> jsval \<Rightarrow> (string \<rightharpoonup> jsval \<times> jsval) \<Rightarrow> string list
     \<Rightarrow> world \<times> unit result" where
  "notify_bindings w mid start newValue oldValue values [] = (w, Returned ())"
| "notify_bindings w mid start newValue oldValue values (binding # mappings) =
     (case notify_binding w mid start newValue oldValue values binding of
        (w1, Thrown e) \<Rightarrow> (w1, Thrown e)
      | (w1, Returned values1) \<Rightarrow>
          notify_bindings w1 mid start newValue oldValue values1 mappings)"

definition notifyChildProperties ::
  "world \<Rightarrow> mgr_id \<Rightarrow> string \<Rightarrow> jsval \<Rightarrow> jsval \<Rightarrow> world \<times> unit result" where
  "notifyChildProperties w mid identifier newValue oldValue =
     (case identifierHash (instances w mid) identifier of
        None \<Rightarrow> (w, Returned ())
      | Some mappings \<Rightarrow>
          if length mappings = 0
          then (update_manager w mid
                  (\<lambda>m. m\<lparr>identifierHash := (identifierHash m)(identifier := None)\<rparr>),
                Returned ())
          else notify_bindings w mid (length identifier + 1) newValue oldValue Map.empty mappings)"

section \<open>The setters\<close>

text \<open>
  \<open>accessor_at w a key\<close> is the accessor pair installed at property \<open>key\<close> of the
  object at \<open>a\<close>, when there is one. \<open>set_accessor\<close> is the \<open>set\<close> closure of the
  pair: of \<open>__defineObject\<close> for an \<open>ObjectAccessor\<close>, of \<open>__definePrimitive\<close> for a
  \<open>PrimitiveAccessor\<close>. Storing the new value changes the variable the two closures
  share, which the model keeps in the property.
\<close>

definition accessor_at :: "world \<Rightarrow> addr \<Rightarrow> string \<Rightarrow> accessor option" where
  "accessor_at w a key =
     (case heap w a of
        None \<Rightarrow> None
      | Some ob \<Rightarrow>
          (case props ob key of
             None \<Rightarrow> None
           | Some p \<Rightarrow> (case slot p of Data v wr \<Rightarrow> None | Accessor acc \<Rightarrow> Some acc)))"

definition store_value :: "world \<Rightarrow> addr \<Rightarrow> string \<Rightarrow> jsval \<Rightarrow> world" where
  "store_value w a key v =
     (case heap w a of
        None \<Rightarrow> w
      | Some ob \<Rightarrow>
          (case props ob key of
             None \<Rightarrow> w
           | Some p \<Rightarrow>
               (case slot p of
                  Data old wr \<Rightarrow> w
                | Accessor acc \<Rightarrow>
                    w\<lparr>heap := (heap w)(a \<mapsto>
                         ob\<lparr>props := (props ob)(key \<mapsto>
                              p\<lparr>slot := Accessor (acc\<lparr>acc_value := v\<rparr>)\<rparr>)\<rparr>)\<rparr>)))"

definition set_accessor ::
  "world \<Rightarrow> addr \<Rightarrow> string \<Rightarrow> accessor \<Rightarrow> jsval \<Rightarrow> world \<times> unit result" where
  "set_accessor w a key acc newValue =
     (if strict_eq (acc_value acc) newValue then (w, Returned ())
      else
        (let oldValue = acc_value acc;
             w1 = store_value w a key newValue;
             mid = acc_manager acc;
             identifier = acc_identifier acc
         in case acc_kind acc of
              ObjectAccessor \<Rightarrow>
                if isArrayFunction (instances w1 mid) then (w1, Returned ())
                else (case identifierHash (instances w1 mid) identifier of
                        None \<Rightarrow> (w1, Thrown TypeError)
                      | Some children \<Rightarrow>
                          andThen (execute w1 mid identifier newValue oldValue)
                            (\<lambda>w2 x.
                               if length children > 0
                               then notifyChildProperties w2 mid identifier newValue oldValue
                               else (w2, Returned ())))
            | PrimitiveAccessor isDefined \<Rightarrow>
                if isArrayFunction (instances w1 mid) \<and> isArray w1 (VRef a)
                then (w1, Returned ())
                else if isDefined then execute w1 mid identifier newValue oldValue
                else if isObject newValue \<or> isArray w1 newValue
                then (case identifierHash (instances w1 mid) identifier of
                        None \<Rightarrow> (w1, Thrown TypeError)
                      | Some children \<Rightarrow>
                          andThen (execute w1 mid identifier newValue oldValue)
                            (\<lambda>w2 x.
                               andThen (defineObject w2 mid identifier (VRef a) key)
                                 (\<lambda>w3 y.
                                    if length children > 0
                                    then notifyChildProperties w3 mid identifier newValue oldValue
                                    else (w3, Returned ()))))
                else andThen (execute w1 mid identifier newValue oldValue)
                       (\<lambda>w2 x. definePrimitive w2 mid identifier (VRef a) key)))"

section \<open>The instrumented array methods\<close>

text \<open>
  \<open>Array.prototype[method].apply(this, args)\<close> belongs to the runtime. It is a parameter
  \<open>native\<close>: from the name of the method, the values of the array's elements and the
  arguments it gives the new values of the elements and the value the method returns,
  or it throws. The new values are written back to the array; an element that is one of
  the manager's accessor pairs keeps its pair and takes the new value. The dispatch that
  the setters of observed elements do by themselves while a method runs without the
  guard is outside the model.
\<close>

type_synonym native = "string \<Rightarrow> jsval list \<Rightarrow> jsval list \<Rightarrow> (jsval list \<times> jsval) result"

definition array_values :: "jsobject \<Rightarrow> jsval list" where
  "array_values ob =
     map (\<lambda>i. case props ob (show_nat i) of None \<Rightarrow> VUndefined | Some p \<Rightarrow> property_value p)
       [0 ..< arr_length ob]"

definition plain_property :: "jsval \<Rightarrow> property" where
  "plain_property v = \<lparr>slot = Data v True, enumerable = True, configurable = True\<rparr>"

definition store_values :: "jsobject \<Rightarrow> jsval list \<Rightarrow> jsobject" where
  "store_values ob vals =
     ob\<lparr>props :=
          (\<lambda>key. case parse_index key of
                    None \<Rightarrow> props ob key
                  | Some i \<Rightarrow>
                      if i < length vals
                      then Some (case props ob key of
                                   None \<Rightarrow> plain_property (vals ! i)
                                 | Some p \<Rightarrow>
                                     (case slot p of
                                        Data old wr \<Rightarrow> p\<lparr>slot := Data (vals ! i) wr\<rparr>
                                      | Accessor acc \<Rightarrow>
                                          p\<lparr>slot := Accessor (acc\<lparr>acc_value := vals ! i\<rparr>)\<rparr>))
                      else None),
        arr_length := length vals\<rparr>"

text \<open>
  \<open>this.slice(0)\<close>: the elements are read in order, through their getters, and copied
  into a new array.
\<close>

definition touch_elements :: "world \<Rightarrow> jsobject \<Rightarrow> world" where
  "touch_elements w ob =
     fold (\<lambda>i w'. case props ob (show_nat i) of None \<Rightarrow> w' | Some p \<Rightarrow> touch w' p)
       [0 ..< arr_length ob] w"

definition slice0 :: "world \<Rightarrow> jsobject \<Rightarrow> world \<times> addr" where
  "slice0 w ob =
     (let w1 = touch_elements w ob;
          copy = \<lparr>is_array = True,
                  props = (\<lambda>key. case parse_index key of
                                    None \<Rightarrow> None
                                  | Some i \<Rightarrow>
                                      if i < arr_length ob
                                      then map_option (\<lambda>p. plain_property (property_value p))
                                             (props ob key)
                                      else None),
                  arr_length = arr_length ob,
                  wrapper = None\<rparr>
      in (w1\<lparr>heap := (heap w1)(next_addr w1 \<mapsto> copy), next_addr := Suc (next_addr w1)\<rparr>,
          next_addr w1))"

text \<open>\<^verbatim>\<open>method.indexOf('shift') !== -1\<close>.\<close>

fun has_substring :: "string \<Rightarrow> string \<Rightarrow> bool" where
  "has_substring pat [] = (pat = [])"
| "has_substring pat (c # cs) = (take (length pat) (c # cs) = pat \<or> has_substring pat cs)"

text \<open>
  The loop over the keys of \<open>callbacks\<close>: the keys are those read before the loop, the
  callback of a key is read from the table when its turn comes.
\<close>

definition call_array_listener ::
  "world \<Rightarrow> string \<Rightarrow> array_listener \<Rightarrow> IArrayMethodInfo \<Rightarrow> world \<times> unit result" where
  "call_array_listener w u cb info =
     (let w1 = w\<lparr>trace := trace w @ [ArrayNotified u cb info]\<rparr>
      in case cb of
           Noop \<Rightarrow> (w1, Returned ())
         | ArrayCallback n \<Rightarrow>
             if faulty w n then (w1, Thrown (CallbackError n)) else (w1, Returned ()))"

fun call_array_listeners ::
  "world \<Rightarrow> string \<Rightarrow> string list \<Rightarrow> IArrayMethodInfo \<Rightarrow> world \<times> unit result" where
  "call_array_listeners w absoluteIdentifier [] info = (w, Returned ())"
| "call_array_listeners w absoluteIdentifier (k # keys) info =
     (case map_of (observedArrayListeners w) absoluteIdentifier of
        None \<Rightarrow> (w, Thrown TypeError)
      | Some callbacks \<Rightarrow>
          (case map_of callbacks k of
             None \<Rightarrow> (w, Thrown TypeError)
           | Some cb \<Rightarrow>
               (case call_array_listener w k cb info of
                  (w1, Thrown e) \<Rightarrow> (w1, Thrown e)
                | (w1, Returned x) \<Rightarrow> call_array_listeners w1 absoluteIdentifier keys info)))"

text \<open>
  \<open>observedArrayFn\<close>, the function that \<open>_overwriteArrayFunction(absoluteIdentifier,
  method)\<close> returns, called on the array at \<open>this\<close> with \<open>args\<close>; \<open>that\<close> is the manager.
  It is written in three parts: the call of the runtime's method on the array, the
  branch around that call, and what follows the branch.
\<close>

definition apply_native ::
  "native \<Rightarrow> world \<Rightarrow> string \<Rightarrow> addr \<Rightarrow> jsobject \<Rightarrow> jsval list \<Rightarrow> world \<times> jsval result" where
  "apply_native native w meth this ob args =
     (case native meth (array_values ob) args of
        Thrown e \<Rightarrow> (w, Thrown e)
      | Returned (vals, r) \<Rightarrow>
          (w\<lparr>heap := (heap w)(this \<mapsto> store_values ob vals)\<rparr>, Returned r))"

definition length_of :: "world \<Rightarrow> addr \<Rightarrow> nat" where
  "length_of w a = (case heap w a of None \<Rightarrow> 0 | Some ob \<Rightarrow> arr_length ob)"

definition guarded_native ::
  "native \<Rightarrow> world \<Rightarrow> mgr_id \<Rightarrow> string \<Rightarrow> string \<Rightarrow> addr \<Rightarrow> jsobject \<Rightarrow> addr
     \<Rightarrow> jsval list \<Rightarrow> world \<times> jsval result" where
  "guarded_native native w1 that absoluteIdentifier meth this ob old args =
     (if has_substring ''shift'' meth
      then andThen
             (apply_native native
                (update_manager w1 that (\<lambda>m. m\<lparr>isArrayFunction := True\<rparr>))
                meth this ob args)
             (\<lambda>w2 r.
                andThen
                  (notifyChildProperties
                     (update_manager w2 that (\<lambda>m. m\<lparr>isArrayFunction := False\<rparr>))
                     that absoluteIdentifier (VRef this) (VRef old))
                  (\<lambda>w3 x. (w3, Returned r)))
      else apply_native native w1 meth this ob args)"

definition notify_array ::
  "world \<Rightarrow> mgr_id \<Rightarrow> string \<Rightarrow> string \<Rightarrow> addr \<Rightarrow> addr \<Rightarrow> jsval list \<Rightarrow> jsval
     \<Rightarrow> world \<times> jsval result" where
  "notify_array w4 that absoluteIdentifier meth this old args r =
     (case map_of (observedArrayListeners w4) absoluteIdentifier of
        None \<Rightarrow> (w4, Thrown TypeError)
      | Some callbacks \<Rightarrow>
          andThen
            (if length_of w4 old \<noteq> length_of w4 this
             then execute w4 that (absoluteIdentifier @ ''.length'')
                    (VNum (int (length_of w4 this))) (VNum (int (length_of w4 old)))
             else (w4, Returned ()))
            (\<lambda>w5 x.
               andThen
                 (call_array_listeners w5 absoluteIdentifier (map fst callbacks)
                    \<lparr>method' = meth, returnValue = r, oldArray = VRef old,
                     newArray = VRef this, arguments = args\<rparr>)
                 (\<lambda>w6 y. (w6, Returned r))))"

definition observedArrayFn ::
  "native \<Rightarrow> world \<Rightarrow> mgr_id \<Rightarrow> string \<Rightarrow> string \<Rightarrow> addr \<Rightarrow> jsval list \<Rightarrow> world \<times> jsval result" where
  "observedArrayFn native w that absoluteIdentifier meth this args =
     (case heap w this of
        None \<Rightarrow> (w, Thrown TypeError)
      | Some ob \<Rightarrow>
          (case slice0 w ob of
             (w1, old) \<Rightarrow>
               andThen (guarded_native native w1 that absoluteIdentifier meth this ob old args)
                 (\<lambda>w4 r. notify_array w4 that absoluteIdentifier meth this old args r)))"

text \<open>
  A call \<open>array.method(args)\<close> by the application: the instrumented method when the
  array carries one, the runtime's method otherwise.
\<close>

definition call_method ::
  "native \<Rightarrow> world \<Rightarrow> addr \<Rightarrow> string \<Rightarrow> jsval list \<Rightarrow> world \<times> jsval result" where
  "call_method native w this meth args =
     (case heap w this of
        None \<Rightarrow> (w, Thrown TypeError)
      | Some ob \<Rightarrow>
          (case wrapper ob of
             None \<Rightarrow> apply_native native w meth this ob args
           | Some ins \<Rightarrow>
               observedArrayFn native w (ins_manager ins) (ins_identifier ins) meth this args))"

section \<open>Observing an identifier\<close>

text \<open>
  The two parts of \<open>observe\<close> that do not call \<open>observe\<close> again: what it does when the
  immediate context is not an object, and the registration of the listener.
\<close>

definition cached :: "manager \<Rightarrow> string \<Rightarrow> jsval" where
  "cached m key = (case contextObjects m key of None \<Rightarrow> VUndefined | Some v \<Rightarrow> v)"

definition observe_primitive ::
  "world \<Rightarrow> mgr_id \<Rightarrow> string \<Rightarrow> IListener option \<Rightarrow> world \<times> remove_listener option result" where
  "observe_primitive w mid absoluteIdentifier observableListener =
     (let w1 = w\<lparr>trace := trace w @
                  [Warned (''Trying to observe a child property of a primitive for identifier: ''
                           @ absoluteIdentifier)]\<rparr>
      in case observableListener of
           Some l \<Rightarrow>
             (case addObservableListener w1 mid absoluteIdentifier l of
                (w2, r) \<Rightarrow> (w2, Returned (Some r)))
         | None \<Rightarrow> (w1, Returned None))"

definition observe_register ::
  "world \<Rightarrow> mgr_id \<Rightarrow> string \<Rightarrow> IListener option \<Rightarrow> jsval \<Rightarrow> string \<Rightarrow> bool
     \<Rightarrow> world \<times> (remove_listener \<times> bool) result" where
  "observe_register w mid absoluteIdentifier observableListener context key hasIdentifier0 =
     andThen
       (get_prop (update_manager w mid (\<lambda>m. m\<lparr>observedIdentifier := None\<rparr>)) context key)
       (\<lambda>w1 v.
          (let w2 = update_manager w1 mid
                      (\<lambda>m. m\<lparr>contextObjects := (contextObjects m)(absoluteIdentifier \<mapsto> v)\<rparr>);
               observed = observedIdentifier (instances w2 mid);
               isObserved = (observed \<noteq> None);
               hasIdentifier1 = (if isObserved then True else hasIdentifier0)
           in case observableListener of
                None \<Rightarrow> (w2, Returned (NoopRemove, hasIdentifier1))
              | Some l \<Rightarrow>
                  (case addObservableListener w2 mid absoluteIdentifier l of
                     (w3, removeAbsoluteCallback) \<Rightarrow>
                       (case observed of
                          None \<Rightarrow>
                            (w3, Returned (Both removeAbsoluteCallback NoopRemove, hasIdentifier1))
                        | Some oi \<Rightarrow>
                            if absoluteIdentifier \<noteq> oi
                            then (case addObservableListener w3 mid oi l of
                                    (w4, removeObservedCallback) \<Rightarrow>
                                      (w4, Returned
                                             (Both removeAbsoluteCallback removeObservedCallback,
                                              hasIdentifier1)))
                            else (w3, Returned
                                        (Both removeAbsoluteCallback NoopRemove,
                                         hasIdentifier1))))))"

text \<open>The loop of \<open>_getImmediateContext\<close>.\<close>

fun walk_context :: "world \<Rightarrow> jsval \<Rightarrow> string list \<Rightarrow> world \<times> jsval result" where
  "walk_context w context [] = (w, Returned context)"
| "walk_context w context (key # split) =
     (case get_prop w context key of
        (w1, Thrown e) \<Rightarrow> (w1, Thrown e)
      | (w1, Returned c) \<Rightarrow>
          if isNull c \<or> split = [] then (w1, Returned c) else walk_context w1 c split)"

lemma split_dot_not_Nil: "split_dot s \<noteq> []"
  by (induction s) (auto split: list.splits)

lemma join_dot_snoc: "xs \<noteq> [] \<Longrightarrow> join_dot (xs @ [x]) = join_dot xs @ ''.'' @ x"
  by (induction xs rule: join_dot.induct) auto

lemma join_dot_split_dot: "join_dot (split_dot s) = s"
proof (induction s)
  case Nil
  show ?case by simp
next
  case (Cons c cs)
  obtain x xs where sp: "split_dot cs = x # xs"
    using split_dot_not_Nil [of cs] by (cases "split_dot cs") auto
  with Cons show ?case by (cases xs) auto
qed

lemma parent_shorter:
  assumes "butlast (split_dot s) \<noteq> []"
  shows "length (join_dot (butlast (split_dot s))) < length s"
proof -
  have ne: "split_dot s \<noteq> []" by (rule split_dot_not_Nil)
  have "join_dot (butlast (split_dot s) @ [last (split_dot s)])
          = join_dot (butlast (split_dot s)) @ ''.'' @ last (split_dot s)"
    using assms by (rule join_dot_snoc)
  moreover have "butlast (split_dot s) @ [last (split_dot s)] = split_dot s"
    using ne by simp
  ultimately have "s = join_dot (butlast (split_dot s)) @ ''.'' @ last (split_dot s)"
    using join_dot_split_dot [of s] by simp
  then have "length s = length (join_dot (butlast (split_dot s)) @ ''.'' @ last (split_dot s))"
    by simp
  then show ?thesis by simp
qed

text \<open>
  \<open>observe\<close> and \<open>_getImmediateContext\<close> call each other, each time on an identifier with
  one segment less. When the identifier has one segment there is no \<open>join\<close>: the call
  \<open>this.observe(join, ...)\<close> returns at once and \<open>observeArray\<close> is given the key
  \<^verbatim>\<open>undefined\<close>.
\<close>

function observe ::
    "world \<Rightarrow> mgr_id \<Rightarrow> string \<Rightarrow> IListener option \<Rightarrow> world \<times> remove_listener option result"
  and getImmediateContext :: "world \<Rightarrow> mgr_id \<Rightarrow> string \<Rightarrow> world \<times> jsval result" where
  "observe w mid absoluteIdentifier observableListener =
     (if isEmpty_string absoluteIdentifier then (w, Returned None)
      else
        (case (if butlast (split_dot absoluteIdentifier) \<noteq> []
               then (if isNull (cached (instances w mid)
                                  (join_dot (butlast (split_dot absoluteIdentifier))))
                     then (case getImmediateContext w mid
                                 (join_dot (butlast (split_dot absoluteIdentifier))) of
                             (w1, Thrown e) \<Rightarrow> (w1, Thrown e)
                           | (w1, Returned c) \<Rightarrow>
                               (update_manager w1 mid
                                  (\<lambda>m. m\<lparr>contextObjects := (contextObjects m)
                                          (join_dot (butlast (split_dot absoluteIdentifier)) \<mapsto> c)\<rparr>),
                                Returned c))
                     else (w, Returned (cached (instances w mid)
                                          (join_dot (butlast (split_dot absoluteIdentifier))))))
               else (w, Returned (context' (instances w mid)))) of
           (w1, Thrown e) \<Rightarrow> (w1, Thrown e)
         | (w1, Returned context) \<Rightarrow>
             if \<not> (isObject context \<or> isArray w1 context)
             then observe_primitive w1 mid absoluteIdentifier observableListener
             else
               (case observe_register w1 mid absoluteIdentifier observableListener context
                       (last (split_dot absoluteIdentifier))
                       (hasIdentifier (instances w mid) absoluteIdentifier) of
                  (w2, Thrown e) \<Rightarrow> (w2, Thrown e)
                | (w2, Returned (remove, hasIdentifier')) \<Rightarrow>
                    if \<not> hasIdentifier'
                    then
                      (if isArray w2 context \<and> last (split_dot absoluteIdentifier) = ''length''
                       then
                         (case observableListener of
                            None \<Rightarrow> (w2, Thrown TypeError)
                          | Some l \<Rightarrow>
                              (case (if butlast (split_dot absoluteIdentifier) \<noteq> []
                                     then observe w2 mid
                                            (join_dot (butlast (split_dot absoluteIdentifier)))
                                            (Some \<lparr>uid = uid l,
                                                   listener = ReobserveArray (uid l)
                                                     (join_dot (butlast (split_dot absoluteIdentifier)))\<rparr>)
                                     else (w2, Returned None)) of
                                 (w3, Thrown e) \<Rightarrow> (w3, Thrown e)
                               | (w3, Returned x) \<Rightarrow>
                                   (case observeArray w3 mid (uid l) Noop
                                           (if butlast (split_dot absoluteIdentifier) \<noteq> []
                                            then join_dot (butlast (split_dot absoluteIdentifier))
                                            else ''undefined'')
                                           context VNull of
                                      (w4, Thrown e) \<Rightarrow> (w4, Thrown e)
                                    | (w4, Returned y) \<Rightarrow> (w4, Returned (Some remove)))))
                       else
                         (case define' w2 mid absoluteIdentifier context
                                 (last (split_dot absoluteIdentifier)) of
                            (w3, Thrown e) \<Rightarrow> (w3, Thrown e)
                          | (w3, Returned y) \<Rightarrow> (w3, Returned (Some remove))))
                    else (w2, Returned (Some remove)))))"
| "getImmediateContext w mid identifier =
     (case (if isNull_listeners (identifiers (instances w mid) identifier)
            then observe w mid identifier None
            else (w, Returned None)) of
        (w1, Thrown e) \<Rightarrow> (w1, Thrown e)
      | (w1, Returned x) \<Rightarrow>
          walk_context w1 (context' (instances w1 mid)) (split_dot identifier))"
  by pat_completeness auto
termination
  by (relation "measure (\<lambda>x. case x of
                    Inl (w, mid, i, l) \<Rightarrow> 2 * length i
                  | Inr (w, mid, i) \<Rightarrow> 2 * length i + 1)")
     (auto dest: parent_shorter)

declare observe.simps [simp del] getImmediateContext.simps [simp del]

section \<open>The static functions\<close>



text \<open>The instance method \<open>dispose\<close> and the static \<open>removeArrayListeners\<close>.\<close>

definition dispose :: "manager \<Rightarrow> manager" where
  "dispose m =
     m\<lparr>context' := VNull, identifiers := Map.empty, identifierHash := Map.empty,
       contextObjects := Map.empty\<rparr>"

definition removeArrayListeners :: "world \<Rightarrow> string \<Rightarrow> string \<Rightarrow> world" where
  "removeArrayListeners w absoluteIdentifier u =
     (case map_of (observedArrayListeners w) absoluteIdentifier of
        None \<Rightarrow> w
      | Some listeners \<Rightarrow>
          w\<lparr>observedArrayListeners :=
               AList.update absoluteIdentifier (AList.delete u listeners)
                 (observedArrayListeners w)\<rparr>)"

text \<open>
  The loops of the static \<open>dispose\<close>: every remove listener of every identifier of the
  control is called with the identifier and the uid, then the uid is taken out of every
  table of array listeners.
\<close>

fun call_remove_listeners :: "world \<Rightarrow> string \<Rightarrow> string \<Rightarrow> mgr_id list \<Rightarrow> world" where
  "call_remove_listeners w identifier u [] = w"
| "call_remove_listeners w identifier u (mid # listeners) =
     call_remove_listeners (update_manager w mid (\<lambda>m. removeCallback m identifier u))
       identifier u listeners"

fun dispose_identifiers ::
  "world \<Rightarrow> (string \<times> mgr_id list) list \<Rightarrow> string \<Rightarrow> string list \<Rightarrow> world" where
  "dispose_identifiers w ids u [] = w"
| "dispose_identifiers w ids u (identifier # keys) =
     dispose_identifiers
       (call_remove_listeners w identifier u
          (case map_of ids identifier of None \<Rightarrow> [] | Some listeners \<Rightarrow> listeners))
       ids u keys"

fun dispose_array_listeners :: "world \<Rightarrow> string \<Rightarrow> string list \<Rightarrow> world" where
  "dispose_array_listeners w u [] = w"
| "dispose_array_listeners w u (k # keys) =
     dispose_array_listeners (removeArrayListeners w k u) u keys"

text \<open>
  The static \<open>dispose(control, persist)\<close>. A control is \<open>null\<close> (\<open>None\<close>) or an object with
  a \<open>uid\<close>, which its type declares a string: the model is given the uid and the
  address of the object. \<open>deepExtend\<close> is declared outside the file and is a
  parameter: from a world and the value to copy it gives the world with the copy in it
  and the copy.
\<close>

definition static_dispose ::
  "(world \<Rightarrow> jsval \<Rightarrow> world \<times> jsval) \<Rightarrow> world \<Rightarrow> (string \<times> addr) option \<Rightarrow> bool
     \<Rightarrow> world \<times> unit result" where
  "static_dispose deepExtend w control persist =
     (case control of
        None \<Rightarrow> (w, Returned ())
      | Some (u, a) \<Rightarrow>
          (let identifiers' = controls w u;
               w1 = (case managers w u of
                       None \<Rightarrow> w
                     | Some mid \<Rightarrow> (update_manager w mid dispose)\<lparr>managers := (managers w)(u := None)\<rparr>)
           in case identifiers' of
                None \<Rightarrow> (w1, Returned ())
              | Some ids \<Rightarrow>
                  (let w2 = dispose_identifiers w1 ids u (map fst ids);
                       w3 = dispose_array_listeners w2 u (map fst (observedArrayListeners w2));
                       w4 = w3\<lparr>controls := (controls w3)(u := None)\<rparr>
                   in andThen (get_prop w4 (VRef a) ''context'')
                        (\<lambda>w5 c.
                           if isNull c then (w5, Returned ())
                           else if persist
                           then andThen (get_prop w5 (VRef a) ''context'')
                                  (\<lambda>w6 c'.
                                     case deepExtend w6 c' of
                                       (w7, copy) \<Rightarrow>
                                         defineProperty w7 (VRef a) ''context'' copy True True)
                           else defineProperty w5 (VRef a) ''context'' VNull True True))))"

section \<open>A world to run the functions in\<close>

text \<open>
  The object \<^verbatim>\<open>{a: 1, n: null, items: [1, 2, 3]}\<close> at address \<open>0\<close>, its array at
  address \<open>1\<close>; the object is the context of every manager. Callback \<open>1\<close> throws when it
  is called, the other callbacks return.
\<close>

definition demo_world :: world where
  "demo_world =
     \<lparr>heap = [0 \<mapsto> \<lparr>is_array = False,
                     props = [''a'' \<mapsto> plain_property (VNum 1),
                              ''n'' \<mapsto> plain_property VNull,
                              ''items'' \<mapsto> plain_property (VRef 1)],
                     arr_length = 0, wrapper = None\<rparr>,
              1 \<mapsto> \<lparr>is_array = True,
                     props = [''0'' \<mapsto> plain_property (VNum 1),
                              ''1'' \<mapsto> plain_property (VNum 2),
                              ''2'' \<mapsto> plain_property (VNum 3)],
                     arr_length = 3, wrapper = None\<rparr>],
      next_addr = 2,
      instances = (\<lambda>mid. new_manager\<lparr>context' := VRef 0\<rparr>),
      managers = Map.empty, controls = Map.empty, observedArrayListeners = [],
      compat = \<lparr>proto = True, setProto = True\<rparr>,
      faulty = (\<lambda>n. n = 1), trace = []\<rparr>"

section \<open>Basic facts\<close>

lemma update_manager_fields [simp]:
  "heap (update_manager w mid f) = heap w"
  "next_addr (update_manager w mid f) = next_addr w"
  "managers (update_manager w mid f) = managers w"
  "controls (update_manager w mid f) = controls w"
  "observedArrayListeners (update_manager w mid f) = observedArrayListeners w"
  "compat (update_manager w mid f) = compat w"
  "faulty (update_manager w mid f) = faulty w"
  "trace (update_manager w mid f) = trace w"
  "instances (update_manager w mid f) = (instances w)(mid := f (instances w mid))"
  by (simp_all add: update_manager_def)

text \<open>The loop of \<open>_removeCallback\<close> filters the list.\<close>

lemma splice_matching_filter:
  "n \<le> length cbs \<Longrightarrow>
   splice_matching cbs n u = filter (\<lambda>l. uid l \<noteq> u) (take n cbs) @ drop n cbs"
proof (induction n arbitrary: cbs)
  case 0
  show ?case by simp
next
  case (Suc i)
  then have i: "i < length cbs" by simp
  show ?case
  proof (cases "uid (cbs ! i) = u")
    case True
    let ?cbs' = "take i cbs @ drop (Suc i) cbs"
    have len: "i \<le> length ?cbs'" using i by simp
    have "splice_matching cbs (Suc i) u = splice_matching ?cbs' i u" using True by simp
    also have "\<dots> = filter (\<lambda>l. uid l \<noteq> u) (take i ?cbs') @ drop i ?cbs'"
      by (rule Suc.IH [OF len])
    also have "take i ?cbs' = take i cbs" using i by simp
    also have "drop i ?cbs' = drop (Suc i) cbs" using i by simp
    finally show ?thesis using True i by (simp add: take_Suc_conv_app_nth)
  next
    case False
    have "splice_matching cbs (Suc i) u = splice_matching cbs i u" using False by simp
    also have "\<dots> = filter (\<lambda>l. uid l \<noteq> u) (take i cbs) @ drop i cbs"
      using Suc.IH [of cbs] i by simp
    finally show ?thesis using False i
      by (simp add: take_Suc_conv_app_nth Cons_nth_drop_Suc)
  qed
qed

lemma splice_matching_all:
  "splice_matching cbs (length cbs) u = filter (\<lambda>l. uid l \<noteq> u) cbs"
  by (simp add: splice_matching_filter)

lemma removeCallback_identifiers:
  "identifiers (removeCallback m i u) =
     (case identifiers m i of
        None \<Rightarrow> identifiers m
      | Some ls \<Rightarrow> (identifiers m)(i \<mapsto> filter (\<lambda>l. uid l \<noteq> u) ls))"
  by (simp add: removeCallback_def splice_matching_all Let_def split: option.splits)

lemma add_identifiers:
  "identifiers (add m i l) =
     (identifiers m)(i \<mapsto> (case identifiers m i of None \<Rightarrow> [] | Some ls \<Rightarrow> ls) @ [l])"
  by (simp add: add_def addHashValues_def Let_def split: option.splits list.splits)

lemma removeIdentifier_fields [simp]:
  "instances (removeIdentifier w us i) = instances w"
  "heap (removeIdentifier w us i) = heap w"
  "trace (removeIdentifier w us i) = trace w"
  "faulty (removeIdentifier w us i) = faulty w"
  "observedArrayListeners (removeIdentifier w us i) = observedArrayListeners w"
  by (induction w us i rule: removeIdentifier.induct; simp split: option.splits)+

section \<open>C10: the static dispose on a null control\<close>

text \<open>
  Claim C10. The static \<open>dispose\<close> called with a \<open>null\<close> control returns at once: it
  does not throw and it leaves the world as it is, so the manager registry, the index
  from owners to identifiers and the table of array listeners are not modified.
\<close>

theorem static_dispose_null:
  "static_dispose deepExtend w None persist = (w, Returned ())"
  by (simp add: static_dispose_def)

section \<open>C9: assigning the value a property already has\<close>

text \<open>
  Claim C9. For every intercepted property, assigning a value that is strictly equal
  to the value stored invokes no listener and leaves the stored value, the value cache
  and every registry unchanged: the setter returns and the world is the same.
\<close>

theorem set_accessor_same_value:
  assumes "accessor_at w a key = Some acc" and "strict_eq (acc_value acc) v"
  shows "set_accessor w a key acc v = (w, Returned ())"
  using assms by (simp add: set_accessor_def)

text \<open>After \<^verbatim>\<open>observe('a', {uid: 'u', listener})\<close>, the assignment \<^verbatim>\<open>context.a = 1\<close>.\<close>

theorem set_accessor_same_value_witness:
  "case observe demo_world 0 ''a'' (Some \<lparr>uid = ''u'', listener = Callback 2\<rparr>) of
     (w1, Returned r) \<Rightarrow>
       (case accessor_at w1 0 ''a'' of
          Some acc \<Rightarrow>
            strict_eq (acc_value acc) (VNum 1) \<and> acc_identifier acc = ''a''
            \<and> set_accessor w1 0 ''a'' acc (VNum 1) = (w1, Returned ())
        | None \<Rightarrow> False)
   | (w1, Thrown e) \<Rightarrow> False"
proof -
  obtain w1 r where o:
    "observe demo_world 0 ''a'' (Some \<lparr>uid = ''u'', listener = Callback 2\<rparr>) = (w1, r)"
    by (cases "observe demo_world 0 ''a'' (Some \<lparr>uid = ''u'', listener = Callback 2\<rparr>)") auto
  have a:
    "accessor_at (fst (observe demo_world 0 ''a'' (Some \<lparr>uid = ''u'', listener = Callback 2\<rparr>)))
       0 ''a''
     = Some \<lparr>acc_manager = 0, acc_identifier = ''a'', acc_value = VNum 1,
             acc_kind = PrimitiveAccessor True\<rparr>"
    by code_simp
  have r:
    "snd (observe demo_world 0 ''a'' (Some \<lparr>uid = ''u'', listener = Callback 2\<rparr>))
     = Returned (Some (Both (Remove 0 ''u'' ''a'') NoopRemove))"
    by code_simp
  have s: "strict_eq (VNum 1) (VNum 1)" by (simp add: strict_eq_def)
  from a o have a':
    "accessor_at w1 0 ''a''
     = Some \<lparr>acc_manager = 0, acc_identifier = ''a'', acc_value = VNum 1,
             acc_kind = PrimitiveAccessor True\<rparr>"
    by simp
  show ?thesis
    using set_accessor_same_value [OF a', of "VNum 1"] s a' o r by simp
qed

section \<open>C8: the static path resolver\<close>

text \<open>
  The only thing a read can change is \<open>__observedIdentifier\<close> of a manager whose getter
  it runs: \<open>only_observedIdentifier w w'\<close> says that \<open>w'\<close> is \<open>w\<close> but for that field.
\<close>

definition only_observedIdentifier :: "world \<Rightarrow> world \<Rightarrow> bool" where
  "only_observedIdentifier w w' =
     (w' = w\<lparr>instances := instances w'\<rparr> \<and>
      (\<forall>mid. instances w' mid =
               (instances w mid)\<lparr>observedIdentifier := observedIdentifier (instances w' mid)\<rparr>))"

lemma only_observedIdentifier_refl [simp]: "only_observedIdentifier w w"
  by (simp add: only_observedIdentifier_def)

lemma only_observedIdentifier_trans:
  "only_observedIdentifier w w1 \<Longrightarrow> only_observedIdentifier w1 w2 \<Longrightarrow> only_observedIdentifier w w2"
  apply (simp add: only_observedIdentifier_def)
  apply (erule conjE)+
  apply (rule conjI)
   apply (metis (no_types) world.surjective world.update_convs(3))
  apply (intro allI)
  apply (drule_tac x=mid in spec)+
  by (metis (no_types) manager.surjective manager.update_convs(6))

lemma touch_only: "only_observedIdentifier w (touch w p)"
  by (auto simp: touch_def only_observedIdentifier_def update_manager_def split: slot.splits)

lemma get_prop_only:
  "get_prop w v key = (w', r) \<Longrightarrow> only_observedIdentifier w w'"
  by (auto simp: get_prop_def get_own_def touch_only split: jsval.splits option.splits if_splits)








declare removeIdentifier.simps [simp del]

section \<open>What a remove function removes\<close>

text \<open>
  The triples (manager, uid, identifier) that a remove function calls
  \<open>_removeCallback\<close> for.
\<close>

fun removes :: "remove_listener \<Rightarrow> (mgr_id \<times> string \<times> string) set" where
  "removes NoopRemove = {}"
| "removes (Remove mid u i) = {(mid, u, i)}"
| "removes (Both r1 r2) = removes r1 \<union> removes r2"

lemma call_remove_identifiers:
  "identifiers (instances (call_remove w r) mid) J =
     map_option (filter (\<lambda>l. (mid, uid l, J) \<notin> removes r)) (identifiers (instances w mid) J)"
proof (induction r arbitrary: w)
  case NoopRemove
  show ?case by (simp add: option.map_ident)
next
  case (Remove m u i)
  show ?case
  proof (cases "mid = m \<and> J = i")
    case True
    then show ?thesis
      by (cases "identifiers (instances w m) i") (auto simp: removeCallback_identifiers)
  next
    case False
    then show ?thesis
      by (cases "identifiers (instances w m) i")
         (auto simp: removeCallback_identifiers option.map_ident)
  qed
next
  case (Both r1 r2)
  show ?case
    by (simp add: Both.IH option.map_comp comp_def conj_commute)
qed

lemma observe_register_remover:
  assumes "observe_register w mid I (Some L) c key h = (w1, Returned (r, h'))"
  shows "(mid, uid L, I) \<in> removes r \<and> (\<forall>m u J. (m, u, J) \<in> removes r \<longrightarrow> m = mid \<and> u = uid L)"
  using assms
  by (auto simp: observe_register_def andThen_def addObservableListener_def Let_def
           split: prod.splits result.splits option.splits if_splits)

lemma observe_primitive_remover:
  assumes "observe_primitive w mid I (Some L) = (w1, Returned (Some r))"
  shows "(mid, uid L, I) \<in> removes r \<and> (\<forall>m u J. (m, u, J) \<in> removes r \<longrightarrow> m = mid \<and> u = uid L)"
  using assms
  by (auto simp: observe_primitive_def addObservableListener_def Let_def)

lemma observe_remover:
  assumes "observe w mid I (Some L) = (w1, Returned (Some r))"
  shows "(mid, uid L, I) \<in> removes r \<and> (\<forall>m u J. (m, u, J) \<in> removes r \<longrightarrow> m = mid \<and> u = uid L)"
  using assms
  apply (subst (asm) observe.simps)
  apply (simp split: if_splits prod.splits result.splits option.splits)
  by (auto dest!: observe_register_remover observe_primitive_remover)


section \<open>What reads and definitions leave alone\<close>

text \<open>
  \<open>silent w w'\<close>: from \<open>w\<close> to \<open>w'\<close> no listener list, no guard, no callback's behaviour
  and no flag of the runtime has changed, and nothing was added to the trace.
\<close>

definition silent :: "world \<Rightarrow> world \<Rightarrow> bool" where
  "silent w w' =
     (faulty w' = faulty w \<and> compat w' = compat w \<and> trace w' = trace w
      \<and> (\<forall>mid. identifiers (instances w' mid) = identifiers (instances w mid)
                \<and> isArrayFunction (instances w' mid) = isArrayFunction (instances w mid)))"

lemma silent_refl [simp]: "silent w w"
  by (simp add: silent_def)

lemma silent_trans: "silent w w1 \<Longrightarrow> silent w1 w2 \<Longrightarrow> silent w w2"
  by (simp add: silent_def)

lemma andThenE:
  assumes "andThen r f = (w', res)"
  obtains (thrown) w1 e where "r = (w1, Thrown e)" "w' = w1" "res = Thrown e"
        | (returned) w1 x where "r = (w1, Returned x)" "f w1 x = (w', res)"
  using assms by (auto simp: andThen_def split: prod.splits result.splits)

lemma same_instances_silent:
  "instances w' = instances w \<Longrightarrow> faulty w' = faulty w \<Longrightarrow> compat w' = compat w \<Longrightarrow>
   trace w' = trace w \<Longrightarrow> silent w w'"
  by (simp add: silent_def)

lemma only_observedIdentifier_silent:
  assumes "only_observedIdentifier w w'"
  shows "silent w w'"
proof -
  have a: "w' = w\<lparr>instances := instances w'\<rparr>"
    and b: "\<And>mid. instances w' mid =
               (instances w mid)\<lparr>observedIdentifier := observedIdentifier (instances w' mid)\<rparr>"
    using assms by (auto simp: only_observedIdentifier_def)
  have f: "faulty w' = faulty w" "compat w' = compat w" "trace w' = trace w"
    by (subst a, simp)+
  have i: "\<And>mid. identifiers (instances w' mid) = identifiers (instances w mid)
                  \<and> isArrayFunction (instances w' mid) = isArrayFunction (instances w mid)"
    by (subst b, simp)+
  show ?thesis using f i by (simp add: silent_def)
qed

lemma get_prop_silent: "get_prop w v key = (w', r) \<Longrightarrow> silent w w'"
  by (rule only_observedIdentifier_silent) (rule get_prop_only)

lemma redefine_fields:
  assumes "redefine w target f = (w', r)"
  shows "instances w' = instances w" "faulty w' = faulty w" "compat w' = compat w"
    "trace w' = trace w" "observedArrayListeners w' = observedArrayListeners w"
  using assms by (auto simp: redefine_def split: jsval.splits option.splits)

lemma redefine_silent: "redefine w target f = (w', r) \<Longrightarrow> silent w w'"
  by (intro same_instances_silent) (auto dest: redefine_fields)

lemma defineObject_silent: "defineObject w mid i c key = (w', r) \<Longrightarrow> silent w w'"
  unfolding defineObject_def
  by (erule andThenE) (auto dest!: get_prop_silent redefine_silent intro: silent_trans)

lemma definePrimitive_silent: "definePrimitive w mid i c key = (w', r) \<Longrightarrow> silent w w'"
  unfolding definePrimitive_def
  by (erule andThenE)
     (auto dest!: get_prop_silent redefine_silent intro: silent_trans split: if_splits)

lemma define_silent: "define' w mid i c key = (w', r) \<Longrightarrow> silent w w'"
  unfolding define'_def
  by (erule andThenE)
     (auto dest!: get_prop_silent defineObject_silent definePrimitive_silent
           intro: silent_trans split: if_splits)

lemma reset_prototype_fields [simp]:
  "instances (reset_prototype w v) = instances w"
  "faulty (reset_prototype w v) = faulty w"
  "compat (reset_prototype w v) = compat w"
  "trace (reset_prototype w v) = trace w"
  "observedArrayListeners (reset_prototype w v) = observedArrayListeners w"
  by (simp_all add: reset_prototype_def split: jsval.splits option.splits)

lemma set_prototype_fields [simp]:
  "instances (set_prototype w v mid i) = instances w"
  "faulty (set_prototype w v mid i) = faulty w"
  "compat (set_prototype w v mid i) = compat w"
  "trace (set_prototype w v mid i) = trace w"
  "observedArrayListeners (set_prototype w v mid i) = observedArrayListeners w"
  by (simp_all add: set_prototype_def split: jsval.splits option.splits)

lemma observeArray_fields:
  assumes "observeArray w mid u lst i arr old = (w', r)"
  shows "instances w' = instances w" "faulty w' = faulty w" "compat w' = compat w"
    "trace w' = trace w"
proof -
  obtain w1 k where p:
    "(if \<not> isNull old
      then (if setProto (compat w) then (reset_prototype w old, 0::nat)
            else if proto (compat w) then (reset_prototype w old, 0)
            else (w, 7))
      else (w, 0)) = (w1, k)"
    by (meson surj_pair)
  have w1: "instances w1 = instances w" "faulty w1 = faulty w" "compat w1 = compat w"
    "trace w1 = trace w"
    using p by (auto split: if_splits)
  show "instances w' = instances w" "faulty w' = faulty w" "compat w' = compat w"
    "trace w' = trace w"
    using assms p w1 unfolding observeArray_def define_methods_def
    by (auto simp: Let_def split: if_splits dest: redefine_fields)
qed

lemma observeArray_silent:
  "observeArray w mid u lst i arr old = (w', r) \<Longrightarrow> silent w w'"
  by (intro same_instances_silent) (auto dest: observeArray_fields)

lemma getValues_loop_only:
  "getValues_loop w split n p doNew doOld = (w', r) \<Longrightarrow> only_observedIdentifier w w'"
proof (induction w split n p doNew doOld arbitrary: w' r rule: getValues_loop.induct)
  case (1 w n p doNew doOld)
  then show ?case by simp
next
  case (2 w q n p doNew doOld)
  then show ?case by simp
next
  case (3 w property q split n p doNew doOld)
  obtain w1 r1 where a:
    "(if doNew then andThen (get_prop w n property) (\<lambda>w1 x. (w1, Returned (x, \<not> isNull x)))
      else (w, Returned (n, doNew))) = (w1, r1)" by (meson surj_pair)
  have o1: "only_observedIdentifier w w1"
    using a by (auto split: if_splits elim!: andThenE dest: get_prop_only)
  show ?case
  proof (cases r1)
    case (Thrown e)
    with a "3.prems" o1 show ?thesis by simp
  next
    case (Returned nd)
    obtain n' doNew' where nd: "nd = (n', doNew')" by (cases nd)
    obtain w2 r2 where b:
      "(if doOld then andThen (get_prop w1 p property) (\<lambda>w2 x. (w2, Returned (x, \<not> isNull x)))
        else (w1, Returned (p, doOld))) = (w2, r2)" by (meson surj_pair)
    have o2: "only_observedIdentifier w1 w2"
      using b by (auto split: if_splits elim!: andThenE dest: get_prop_only)
    have o12: "only_observedIdentifier w w2"
      using o1 o2 by (rule only_observedIdentifier_trans)
    show ?thesis
    proof (cases r2)
      case (Thrown e)
      with a b Returned nd "3.prems" o12 show ?thesis by simp
    next
      case r2: (Returned od)
      obtain p' doOld' where od: "od = (p', doOld')" by (cases od)
      show ?thesis
      proof (cases "doNew' \<or> doOld'")
        case False
        with a b Returned nd r2 od "3.prems" o12 show ?thesis by simp
      next
        case True
        have "getValues_loop w2 (q # split) n' p' doNew' doOld' = (w', r)"
          using a b Returned nd r2 od "3.prems" True by (auto split: if_splits)
        moreover have "\<not> \<not> (doNew' \<or> doOld')" using True by simp
        ultimately have "only_observedIdentifier w2 w'"
          using "3.IH" [OF a [symmetric] Returned nd [symmetric] b [symmetric] r2 od [symmetric]]
          by blast
        with o12 show ?thesis by (rule only_observedIdentifier_trans)
      qed
    qed
  qed
qed

lemma getValues_silent:
  assumes "getValues w split n p = (w', r)"
  shows "silent w w'"
  using assms unfolding getValues_def
proof (elim andThenE, goal_cases)
  case (1 w1 e)
  then show ?case
    by (auto dest!: getValues_loop_only only_observedIdentifier_silent)
next
  case (2 w1 x)
  have d1: "silent w w1"
    using 2(1) by (auto dest!: getValues_loop_only only_observedIdentifier_silent)
  show ?case
  proof (cases x)
    case None
    with 2 d1 show ?thesis by simp
  next
    case (Some t)
    obtain s' nr orr where t: "t = (s', nr, orr)" by (cases t)
    from 2(2) Some t have "silent w1 w'"
      by (auto simp: Let_def elim!: andThenE split: if_splits
               dest!: get_prop_silent intro: silent_trans)
    with d1 show ?thesis by (rule silent_trans)
  qed
qed

lemma child_of_silent: "child_of w parent key d = (w', r) \<Longrightarrow> silent w w'"
  by (auto simp: child_of_def split: if_splits dest: get_prop_silent)

lemma walk_context_silent: "walk_context w c split = (w', r) \<Longrightarrow> silent w w'"
proof (induction split arbitrary: w c)
  case Nil
  then show ?case by simp
next
  case (Cons k ks)
  obtain w1 r1 where g: "get_prop w c k = (w1, r1)" by (meson surj_pair)
  have s1: "silent w w1" using g by (rule get_prop_silent)
  show ?case
  proof (cases r1)
    case (Thrown e)
    with g Cons.prems s1 show ?thesis by simp
  next
    case (Returned x)
    show ?thesis
    proof (cases "isNull x \<or> ks = []")
      case True
      with g Returned Cons.prems s1 show ?thesis by auto
    next
      case False
      with g Returned Cons.prems have "walk_context w1 x ks = (w', r)" by simp
      from Cons.IH [OF this] s1 show ?thesis by (blast intro: silent_trans)
    qed
  qed
qed

lemma store_value_fields [simp]:
  "instances (store_value w a key v) = instances w"
  "faulty (store_value w a key v) = faulty w"
  "compat (store_value w a key v) = compat w"
  "trace (store_value w a key v) = trace w"
  "observedArrayListeners (store_value w a key v) = observedArrayListeners w"
  by (simp_all add: store_value_def split: option.splits slot.splits)

section \<open>What dispatch leaves alone\<close>

text \<open>
  \<open>dispatches w w'\<close>: from \<open>w\<close> to \<open>w'\<close> no listener list, no guard, no callback's
  behaviour and no flag of the runtime has changed, and the trace has grown by calls of
  listeners that are registered, under the identifier they were called for.
\<close>

definition registered :: "world \<Rightarrow> string \<Rightarrow> nat \<Rightarrow> bool" where
  "registered w J n =
     (\<exists>mid ls l. identifiers (instances w mid) J = Some ls \<and> l \<in> set ls \<and> listener l = Callback n)"

definition listener_event :: "world \<Rightarrow> event \<Rightarrow> bool" where
  "listener_event w e =
     (case e of
        Notified J n x y \<Rightarrow> registered w J n
      | ArrayNotified u cb info \<Rightarrow> False
      | Warned s \<Rightarrow> False)"

definition dispatches :: "world \<Rightarrow> world \<Rightarrow> bool" where
  "dispatches w w' =
     (faulty w' = faulty w \<and> compat w' = compat w
      \<and> (\<forall>mid. identifiers (instances w' mid) = identifiers (instances w mid)
                \<and> isArrayFunction (instances w' mid) = isArrayFunction (instances w mid))
      \<and> (\<exists>es. trace w' = trace w @ es \<and> list_all (listener_event w) es))"

lemma dispatches_refl [simp]: "dispatches w w"
  by (simp add: dispatches_def)

lemma silent_dispatches: "silent w w' \<Longrightarrow> dispatches w w'"
  by (simp add: silent_def dispatches_def)

lemma listener_event_cong:
  "(\<forall>mid. identifiers (instances w' mid) = identifiers (instances w mid)) \<Longrightarrow>
   listener_event w' = listener_event w"
  by (rule ext) (simp add: listener_event_def registered_def split: event.splits)

lemma dispatches_trans:
  assumes "dispatches w w1" and "dispatches w1 w2"
  shows "dispatches w w2"
proof -
  from assms(1) obtain es where es: "trace w1 = trace w @ es" "list_all (listener_event w) es"
    by (auto simp: dispatches_def)
  from assms(2) obtain fs where fs: "trace w2 = trace w1 @ fs" "list_all (listener_event w1) fs"
    by (auto simp: dispatches_def)
  have "listener_event w1 = listener_event w"
    using assms(1) by (intro listener_event_cong) (simp add: dispatches_def)
  with es fs have "trace w2 = trace w @ (es @ fs) \<and> list_all (listener_event w) (es @ fs)"
    by simp
  then have "\<exists>gs. trace w2 = trace w @ gs \<and> list_all (listener_event w) gs" by blast
  then show ?thesis using assms by (simp add: dispatches_def)
qed

lemma call_listener_dispatches:
  assumes "call_listener w mid J l v old = (w', r)"
    and "identifiers (instances w mid) J = Some ls" and "l \<in> set ls"
  shows "dispatches w w'"
proof (cases "listener l")
  case (Callback n)
  have "registered w J n"
    using assms(2,3) Callback by (auto simp: registered_def)
  then have "list_all (listener_event w) [Notified J n v old]"
    by (simp add: listener_event_def)
  moreover have "trace w' = trace w @ [Notified J n v old]" "instances w' = instances w"
    "faulty w' = faulty w" "compat w' = compat w"
    using assms(1) Callback by (auto simp: call_listener_def Let_def split: if_splits)
  ultimately show ?thesis
    unfolding dispatches_def by (metis (no_types))
next
  case (ReobserveArray u join)
  then show ?thesis
    using assms(1)
    by (auto simp: call_listener_def dest!: observeArray_silent silent_dispatches)
qed

lemma call_listeners_dispatches:
  assumes "call_listeners w mid J xs v old = (w', r)"
    and "identifiers (instances w mid) J = Some ls" and "set xs \<subseteq> set ls"
  shows "dispatches w w'"
  using assms
proof (induction xs arbitrary: w)
  case Nil
  then show ?case by simp
next
  case (Cons x xs)
  obtain w1 r1 where c: "call_listener w mid J x v old = (w1, r1)" by (meson surj_pair)
  have d1: "dispatches w w1"
    using c Cons.prems(2,3) by (auto intro: call_listener_dispatches)
  show ?case
  proof (cases r1)
    case (Thrown e)
    with c Cons.prems(1) d1 show ?thesis by simp
  next
    case (Returned y)
    have i1: "identifiers (instances w1 mid) J = Some ls"
      using d1 Cons.prems(2) by (simp add: dispatches_def)
    have "call_listeners w1 mid J xs v old = (w', r)"
      using c Returned Cons.prems(1) by simp
    from Cons.IH [OF this i1] Cons.prems(3) have "dispatches w1 w'" by simp
    with d1 show ?thesis by (rule dispatches_trans)
  qed
qed

lemma execute_dispatches:
  assumes "execute w mid J v old = (w', r)"
  shows "dispatches w w'"
proof -
  define w2 where "w2 =
    (if isUndefined v
     then update_manager
            (update_manager w mid (\<lambda>m. m\<lparr>contextObjects := (contextObjects m)(J \<mapsto> v)\<rparr>)) mid
            (\<lambda>m. m\<lparr>contextObjects := (contextObjects m)(J := None)\<rparr>)
     else update_manager w mid (\<lambda>m. m\<lparr>contextObjects := (contextObjects m)(J \<mapsto> v)\<rparr>))"
  have d: "dispatches w w2"
    by (simp add: w2_def dispatches_def)
  show ?thesis
  proof (cases "identifiers (instances w mid) J")
    case None
    then have "w' = w2" using assms by (simp add: execute_def w2_def Let_def)
    with d show ?thesis by simp
  next
    case (Some ls)
    then have c: "call_listeners w2 mid J ls v old = (w', r)"
      using assms by (simp add: execute_def w2_def Let_def)
    have "identifiers (instances w2 mid) J = Some ls"
      using d Some by (simp add: dispatches_def)
    from call_listeners_dispatches [OF c this] have "dispatches w2 w'" by simp
    with d show ?thesis by (rule dispatches_trans)
  qed
qed

lemma notify_child_dispatches:
  "notify_child w mid b prop key vals np nc oc = (w', r) \<Longrightarrow> dispatches w w'"
  unfolding notify_child_def
  by (auto elim!: andThenE split: if_splits
           dest!: define_silent silent_dispatches execute_dispatches intro: dispatches_trans)

lemma notify_resolved_dispatches:
  "notify_resolved w mid b prop key pp vals v = (w', r) \<Longrightarrow> dispatches w w'"
  unfolding notify_resolved_def
  by (auto elim!: andThenE split: option.splits prod.splits
           dest!: execute_dispatches child_of_silent silent_dispatches notify_child_dispatches
           intro: dispatches_trans)

lemma notify_binding_dispatches:
  assumes "notify_binding w mid start nv ov vals binding = (w', r)"
  shows "dispatches w w'"
  using assms unfolding notify_binding_def Let_def
  by (auto elim!: andThenE split: if_splits option.splits
           dest!: child_of_silent notify_child_dispatches getValues_silent silent_dispatches
                  notify_resolved_dispatches
           intro: dispatches_trans)

lemma notify_bindings_dispatches:
  "notify_bindings w mid start nv ov vals mappings = (w', r) \<Longrightarrow> dispatches w w'"
proof (induction mappings arbitrary: w vals)
  case Nil
  then show ?case by simp
next
  case (Cons b bs)
  obtain w1 r1 where n: "notify_binding w mid start nv ov vals b = (w1, r1)"
    by (meson surj_pair)
  have d1: "dispatches w w1" using n by (rule notify_binding_dispatches)
  show ?case
  proof (cases r1)
    case (Thrown e)
    with n Cons.prems d1 show ?thesis by simp
  next
    case (Returned vs)
    with n Cons.prems have "notify_bindings w1 mid start nv ov vs bs = (w', r)" by simp
    from Cons.IH [OF this] d1 show ?thesis by (blast intro: dispatches_trans)
  qed
qed

lemma notifyChildProperties_dispatches:
  "notifyChildProperties w mid J nv ov = (w', r) \<Longrightarrow> dispatches w w'"
  unfolding notifyChildProperties_def
  by (auto split: option.splits if_splits dest: notify_bindings_dispatches
           simp: dispatches_def)

lemma set_accessor_dispatches:
  assumes "set_accessor w a key acc v = (w', r)"
  shows "dispatches w w'"
proof (cases "strict_eq (acc_value acc) v")
  case True
  with assms show ?thesis by (simp add: set_accessor_def)
next
  case False
  have d1: "dispatches w (store_value w a key v)"
    by (rule silent_dispatches, rule same_instances_silent) simp_all
  have "dispatches (store_value w a key v) w'"
    using assms False unfolding set_accessor_def Let_def
    by (auto split: accessor_kind.splits if_splits option.splits elim!: andThenE
             dest!: execute_dispatches notifyChildProperties_dispatches defineObject_silent
                    definePrimitive_silent silent_dispatches
             intro: dispatches_trans)
  with d1 show ?thesis by (rule dispatches_trans)
qed

section \<open>C1: a listener that throws\<close>



text \<open>
  The world after \<^verbatim>\<open>observe('a', {uid: 'u1', listener: l1})\<close> and
  \<^verbatim>\<open>observe('a', {uid: 'u2', listener: l2})\<close> on manager \<open>0\<close>: two listeners on \<^verbatim>\<open>a\<close>,
  the accessor installed on the property; the callback of the first listener throws.
\<close>

definition two_listeners :: world where
  "two_listeners =
     demo_world
       \<lparr>heap := (heap demo_world)
          (0 \<mapsto> \<lparr>is_array = False,
                 props = [''a'' \<mapsto> \<lparr>slot = Accessor \<lparr>acc_manager = 0, acc_identifier = ''a'',
                                                   acc_value = VNum 1,
                                                   acc_kind = PrimitiveAccessor True\<rparr>,
                                   enumerable = True, configurable = True\<rparr>,
                          ''n'' \<mapsto> plain_property VNull,
                          ''items'' \<mapsto> plain_property (VRef 1)],
                 arr_length = 0, wrapper = None\<rparr>),
        instances := (instances demo_world)
          (0 := new_manager
                 \<lparr>context' := VRef 0,
                  identifiers := [''a'' \<mapsto> [\<lparr>uid = ''u1'', listener = Callback 1\<rparr>,
                                           \<lparr>uid = ''u2'', listener = Callback 2\<rparr>]],
                  identifierHash := [''a'' \<mapsto> []],
                  contextObjects := [''a'' \<mapsto> VNum 1],
                  observedIdentifier := Some ''a''\<rparr>),
        controls := [''u1'' \<mapsto> [(''a'', [0])], ''u2'' \<mapsto> [(''a'', [0])]]\<rparr>"







section \<open>C2: removing a registration\<close>

text \<open>
  The world after \<^verbatim>\<open>observe('a', {uid: 'u', listener: l2})\<close> on manager \<open>0\<close> of
  \<open>demo_world\<close>, and the world after a second call
  \<^verbatim>\<open>observe('a', {uid: 'u', listener: l3})\<close> by the same owner.
\<close>

definition one_listener :: world where
  "one_listener =
     demo_world
       \<lparr>heap := (heap demo_world)
          (0 \<mapsto> \<lparr>is_array = False,
                 props = [''a'' \<mapsto> \<lparr>slot = Accessor \<lparr>acc_manager = 0, acc_identifier = ''a'',
                                                   acc_value = VNum 1,
                                                   acc_kind = PrimitiveAccessor True\<rparr>,
                                   enumerable = True, configurable = True\<rparr>,
                          ''n'' \<mapsto> plain_property VNull,
                          ''items'' \<mapsto> plain_property (VRef 1)],
                 arr_length = 0, wrapper = None\<rparr>),
        instances := (instances demo_world)
          (0 := new_manager
                 \<lparr>context' := VRef 0,
                  identifiers := [''a'' \<mapsto> [\<lparr>uid = ''u'', listener = Callback 2\<rparr>]],
                  identifierHash := [''a'' \<mapsto> []],
                  contextObjects := [''a'' \<mapsto> VNum 1]\<rparr>),
        controls := [''u'' \<mapsto> [(''a'', [0])]]\<rparr>"

definition same_owner :: world where
  "same_owner =
     one_listener
       \<lparr>instances := (instances one_listener)
          (0 := (instances one_listener 0)
                 \<lparr>identifiers := [''a'' \<mapsto> [\<lparr>uid = ''u'', listener = Callback 2\<rparr>,
                                           \<lparr>uid = ''u'', listener = Callback 3\<rparr>]],
                  observedIdentifier := Some ''a''\<rparr>),
        controls := [''u'' \<mapsto> [(''a'', [0, 0])]]\<rparr>"

text \<open>The two worlds are what \<open>observe\<close> makes, where the functions below look.\<close>

lemma one_listener_observed:
  "(case observe demo_world 0 ''a'' (Some \<lparr>uid = ''u'', listener = Callback 2\<rparr>) of
      (w, r) \<Rightarrow>
        r = Returned (Some (Both (Remove 0 ''u'' ''a'') NoopRemove))
        \<and> identifiers (instances w 0) ''a'' = identifiers (instances one_listener 0) ''a''
        \<and> identifierHash (instances w 0) ''a'' = identifierHash (instances one_listener 0) ''a''
        \<and> contextObjects (instances w 0) ''a'' = contextObjects (instances one_listener 0) ''a''
        \<and> accessor_at w 0 ''a'' = accessor_at one_listener 0 ''a''
        \<and> controls w ''u'' = controls one_listener ''u'')"
  by code_simp

lemma same_owner_observed:
  "(case observe one_listener 0 ''a'' (Some \<lparr>uid = ''u'', listener = Callback 3\<rparr>) of
      (w, r) \<Rightarrow>
        r = Returned (Some (Both (Remove 0 ''u'' ''a'') NoopRemove))
        \<and> identifiers (instances w 0) ''a'' = identifiers (instances same_owner 0) ''a''
        \<and> identifierHash (instances w 0) ''a'' = identifierHash (instances same_owner 0) ''a''
        \<and> contextObjects (instances w 0) ''a'' = contextObjects (instances same_owner 0) ''a''
        \<and> accessor_at w 0 ''a'' = accessor_at same_owner 0 ''a''
        \<and> controls w ''u'' = controls same_owner ''u'')"
  by code_simp

text \<open>
  Claim C2, as the code has it. The function that \<open>observe\<close> returns calls
  \<open>_removeCallback\<close> with the identifier and the uid: it removes every registration of
  that uid on the identifier, not only the one it was made for, and leaves the
  registrations of the other uids on the identifier in place and in order.
\<close>

theorem remove_callback_removes_uid:
  assumes "observe w mid I (Some L) = (w1, Returned (Some r))"
    and "identifiers (instances w2 mid) I = Some ls"
  shows "identifiers (instances (call_remove w2 r) mid) I
           = Some (filter (\<lambda>l. uid l \<noteq> uid L) ls)"
proof -
  have "(\<lambda>l. (mid, uid l, I) \<notin> removes r) = (\<lambda>l. uid l \<noteq> uid L)"
    using observe_remover [OF assms(1)] by (intro ext) auto
  then have "filter (\<lambda>l. (mid, uid l, I) \<notin> removes r) ls = filter (\<lambda>l. uid l \<noteq> uid L) ls"
    by (rule arg_cong [where f = "\<lambda>p. filter p ls"])
  then show ?thesis
    by (simp only: call_remove_identifiers assms(2) option.map)
qed

theorem remove_callback_removes_uid_witness:
  "observe one_listener 0 ''a'' (Some \<lparr>uid = ''u'', listener = Callback 3\<rparr>)
     = (fst (observe one_listener 0 ''a'' (Some \<lparr>uid = ''u'', listener = Callback 3\<rparr>)),
        Returned (Some (Both (Remove 0 ''u'' ''a'') NoopRemove)))
   \<and> identifiers (instances two_listeners 0) ''a''
       = Some [\<lparr>uid = ''u1'', listener = Callback 1\<rparr>, \<lparr>uid = ''u2'', listener = Callback 2\<rparr>]
   \<and> identifiers
         (instances (call_remove two_listeners (Both (Remove 0 ''u'' ''a'') NoopRemove)) 0) ''a''
       = Some [\<lparr>uid = ''u1'', listener = Callback 1\<rparr>, \<lparr>uid = ''u2'', listener = Callback 2\<rparr>]
   \<and> identifiers (instances same_owner 0) ''a''
       = Some [\<lparr>uid = ''u'', listener = Callback 2\<rparr>, \<lparr>uid = ''u'', listener = Callback 3\<rparr>]
   \<and> identifiers
         (instances (call_remove same_owner (Both (Remove 0 ''u'' ''a'') NoopRemove)) 0) ''a''
       = Some []"
proof -
  have s: "snd (observe one_listener 0 ''a'' (Some \<lparr>uid = ''u'', listener = Callback 3\<rparr>))
             = Returned (Some (Both (Remove 0 ''u'' ''a'') NoopRemove))"
    by code_simp
  have o: "observe one_listener 0 ''a'' (Some \<lparr>uid = ''u'', listener = Callback 3\<rparr>)
     = (fst (observe one_listener 0 ''a'' (Some \<lparr>uid = ''u'', listener = Callback 3\<rparr>)),
        Returned (Some (Both (Remove 0 ''u'' ''a'') NoopRemove)))"
    using s by (simp add: prod_eq_iff)
  have a: "identifiers (instances two_listeners 0) ''a''
       = Some [\<lparr>uid = ''u1'', listener = Callback 1\<rparr>, \<lparr>uid = ''u2'', listener = Callback 2\<rparr>]"
    by code_simp
  have b: "identifiers (instances same_owner 0) ''a''
       = Some [\<lparr>uid = ''u'', listener = Callback 2\<rparr>, \<lparr>uid = ''u'', listener = Callback 3\<rparr>]"
    by code_simp
  show ?thesis
    using remove_callback_removes_uid [OF o a] remove_callback_removes_uid [OF o b] o a b
    by simp
qed

text \<open>
  The claim fails: the owner \<^verbatim>\<open>u\<close> has registered two listeners on \<^verbatim>\<open>a\<close> by two
  calls of \<open>observe\<close>; the function that a call returned removes both.
\<close>

theorem remove_callback_counterexample:
  "snd (observe demo_world 0 ''a'' (Some \<lparr>uid = ''u'', listener = Callback 2\<rparr>))
     = Returned (Some (Both (Remove 0 ''u'' ''a'') NoopRemove))
   \<and> snd (observe one_listener 0 ''a'' (Some \<lparr>uid = ''u'', listener = Callback 3\<rparr>))
     = Returned (Some (Both (Remove 0 ''u'' ''a'') NoopRemove))
   \<and> identifiers (instances same_owner 0) ''a''
       = Some [\<lparr>uid = ''u'', listener = Callback 2\<rparr>, \<lparr>uid = ''u'', listener = Callback 3\<rparr>]
   \<and> identifiers
         (instances (call_remove same_owner (Both (Remove 0 ''u'' ''a'') NoopRemove)) 0) ''a''
       = Some []"
  by code_simp

section \<open>What observe registers\<close>

text \<open>
  \<open>registers ok w w'\<close>: from \<open>w\<close> to \<open>w'\<close> every listener list has kept its entries, in
  order, the entries added at its end satisfy \<open>ok\<close> (for the manager and the identifier
  of the list), no callback's behaviour has changed and the trace has grown by warnings
  only.
\<close>

definition extend :: "'a list option \<Rightarrow> 'a list \<Rightarrow> 'a list option" where
  "extend old extra =
     (if extra = [] then old else Some ((case old of None \<Rightarrow> [] | Some ls \<Rightarrow> ls) @ extra))"

definition registers :: "(mgr_id \<Rightarrow> string \<Rightarrow> IListener \<Rightarrow> bool) \<Rightarrow> world \<Rightarrow> world \<Rightarrow> bool" where
  "registers ok w w' =
     (faulty w' = faulty w
      \<and> (\<exists>ws. trace w' = trace w @ map Warned ws)
      \<and> (\<forall>mid J. \<exists>extra. list_all (ok mid J) extra
             \<and> identifiers (instances w' mid) J = extend (identifiers (instances w mid) J) extra))"

definition is_reobserve :: "mgr_id \<Rightarrow> string \<Rightarrow> IListener \<Rightarrow> bool" where
  "is_reobserve mid J l = (case listener l of Callback n \<Rightarrow> False | ReobserveArray u j \<Rightarrow> True)"

lemma extend_Nil [simp]: "extend old [] = old"
  by (simp add: extend_def)

lemma extend_extend: "extend (extend old e1) e2 = extend old (e1 @ e2)"
  by (simp add: extend_def split: option.splits)

lemma registers_refl [simp]: "registers ok w w"
proof -
  have "trace w = trace w @ map Warned []" by simp
  then have t: "\<exists>ws. trace w = trace w @ map Warned ws" by blast
  have "list_all (ok mid J) [] \<and> identifiers (instances w mid) J
          = extend (identifiers (instances w mid) J) []" for mid J
    by simp
  then have "\<forall>mid J. \<exists>extra. list_all (ok mid J) extra
             \<and> identifiers (instances w mid) J = extend (identifiers (instances w mid) J) extra"
    by blast
  with t show ?thesis by (simp add: registers_def)
qed

lemma registers_trans:
  assumes "registers ok w w1" and "registers ok w1 w2"
  shows "registers ok w w2"
proof -
  obtain ws1 where t1: "trace w1 = trace w @ map Warned ws1"
    using assms(1) by (auto simp: registers_def)
  obtain ws2 where t2: "trace w2 = trace w1 @ map Warned ws2"
    using assms(2) by (auto simp: registers_def)
  have "trace w2 = trace w @ map Warned (ws1 @ ws2)" using t1 t2 by simp
  then have t: "\<exists>ws. trace w2 = trace w @ map Warned ws" by blast
  have "\<exists>extra. list_all (ok mid J) extra
          \<and> identifiers (instances w2 mid) J = extend (identifiers (instances w mid) J) extra"
    for mid J
  proof -
    obtain e1 where e1: "list_all (ok mid J) e1"
      "identifiers (instances w1 mid) J = extend (identifiers (instances w mid) J) e1"
      using assms(1) unfolding registers_def by blast
    obtain e2 where e2: "list_all (ok mid J) e2"
      "identifiers (instances w2 mid) J = extend (identifiers (instances w1 mid) J) e2"
      using assms(2) unfolding registers_def by blast
    have "list_all (ok mid J) (e1 @ e2)
          \<and> identifiers (instances w2 mid) J = extend (identifiers (instances w mid) J) (e1 @ e2)"
      using e1 e2 by (simp add: extend_extend)
    then show ?thesis by blast
  qed
  with t assms show ?thesis by (simp add: registers_def)
qed

lemma registers_mono:
  assumes "registers ok w w'" and "\<And>mid J l. ok mid J l \<Longrightarrow> ok' mid J l"
  shows "registers ok' w w'"
proof -
  have "\<exists>extra. list_all (ok' mid J) extra
          \<and> identifiers (instances w' mid) J = extend (identifiers (instances w mid) J) extra"
    for mid J
  proof -
    obtain e where e: "list_all (ok mid J) e"
      "identifiers (instances w' mid) J = extend (identifiers (instances w mid) J) e"
      using assms(1) unfolding registers_def by blast
    have "list_all (ok' mid J) e" using e(1) assms(2) by (auto simp: list_all_iff)
    with e(2) show ?thesis by blast
  qed
  with assms(1) show ?thesis by (simp add: registers_def)
qed

lemma same_identifiers_registers:
  assumes "faulty w' = faulty w" and "trace w' = trace w"
    and "\<And>mid. identifiers (instances w' mid) = identifiers (instances w mid)"
  shows "registers ok w w'"
proof -
  have "trace w' = trace w @ map Warned []" using assms(2) by simp
  then have t: "\<exists>ws. trace w' = trace w @ map Warned ws" by blast
  have "list_all (ok mid J) [] \<and> identifiers (instances w' mid) J
          = extend (identifiers (instances w mid) J) []" for mid J
    using assms(3) by simp
  then have "\<forall>mid J. \<exists>extra. list_all (ok mid J) extra
             \<and> identifiers (instances w' mid) J = extend (identifiers (instances w mid) J) extra"
    by blast
  with t assms(1) show ?thesis by (simp add: registers_def)
qed

lemma silent_registers: "silent w w' \<Longrightarrow> registers ok w w'"
  by (rule same_identifiers_registers) (simp_all add: silent_def)

lemma pushRemoveListener_fields [simp]:
  "instances (pushRemoveListener w i u m) = instances w"
  "faulty (pushRemoveListener w i u m) = faulty w"
  "trace (pushRemoveListener w i u m) = trace w"
  "heap (pushRemoveListener w i u m) = heap w"
  by (simp_all add: pushRemoveListener_def Let_def)

lemma addObservableListener_registers:
  assumes "addObservableListener w mid I l = (w', r)"
  shows "registers (\<lambda>m J x. m = mid \<and> J = I \<and> x = l) w w'"
    and "r = Remove mid (uid l) I"
proof -
  have w': "w' = pushRemoveListener (update_manager w mid (\<lambda>m. add m I l)) I (uid l) mid"
    and r: "r = Remove mid (uid l) I"
    using assms by (auto simp: addObservableListener_def Let_def)
  show "r = Remove mid (uid l) I" by (rule r)
  have "trace w' = trace w @ map Warned []" using w' by simp
  then have t: "\<exists>ws. trace w' = trace w @ map Warned ws" by blast
  have "\<exists>extra. list_all (\<lambda>x. m = mid \<and> J = I \<and> x = l) extra
          \<and> identifiers (instances w' m) J = extend (identifiers (instances w m) J) extra"
    for m J
  proof (cases "m = mid \<and> J = I")
    case True
    have "list_all (\<lambda>x. m = mid \<and> J = I \<and> x = l) [l]
          \<and> identifiers (instances w' m) J = extend (identifiers (instances w m) J) [l]"
      using True w' by (simp add: add_identifiers extend_def)
    then show ?thesis by blast
  next
    case False
    have "list_all (\<lambda>x. m = mid \<and> J = I \<and> x = l) []
          \<and> identifiers (instances w' m) J = extend (identifiers (instances w m) J) []"
      using False w' by (auto simp: add_identifiers)
    then show ?thesis by blast
  qed
  with t w' show "registers (\<lambda>m J x. m = mid \<and> J = I \<and> x = l) w w'"
    by (simp add: registers_def)
qed


text \<open>
  What \<open>observe\<close> may add to a list: the arrow functions it builds for an array's
  \<open>length\<close>, and the listener it was given, under an identifier that the function it
  returns (when it returns one) removes the listener's uid from.
\<close>

definition covered :: "mgr_id \<Rightarrow> remove_listener option result \<Rightarrow> string \<Rightarrow> string \<Rightarrow> bool" where
  "covered mid res u J =
     (case res of
        Returned None \<Rightarrow> True
      | Returned (Some r) \<Rightarrow> (mid, u, J) \<in> removes r
      | Thrown e \<Rightarrow> True)"

definition observed_entry ::
  "mgr_id \<Rightarrow> IListener option \<Rightarrow> remove_listener option result
     \<Rightarrow> mgr_id \<Rightarrow> string \<Rightarrow> IListener \<Rightarrow> bool" where
  "observed_entry mid observableListener res m J l =
     (is_reobserve m J l
      \<or> (observableListener = Some l \<and> m = mid \<and> covered mid res (uid l) J))"

lemma warned_registers: "registers ok w (w\<lparr>trace := trace w @ [Warned s]\<rparr>)"
proof -
  have "trace (w\<lparr>trace := trace w @ [Warned s]\<rparr>) = trace w @ map Warned [s]" by simp
  then have t: "\<exists>ws. trace (w\<lparr>trace := trace w @ [Warned s]\<rparr>) = trace w @ map Warned ws"
    by blast
  have "list_all (ok mid J) []
        \<and> identifiers (instances (w\<lparr>trace := trace w @ [Warned s]\<rparr>) mid) J
            = extend (identifiers (instances w mid) J) []" for mid J
    by simp
  then have "\<forall>mid J. \<exists>extra. list_all (ok mid J) extra
        \<and> identifiers (instances (w\<lparr>trace := trace w @ [Warned s]\<rparr>) mid) J
            = extend (identifiers (instances w mid) J) extra"
    by blast
  with t show ?thesis by (simp add: registers_def)
qed

lemma observe_primitive_registers:
  assumes "observe_primitive w mid I observableListener = (w', res)"
  shows "registers (observed_entry mid observableListener res) w w'"
proof (cases observableListener)
  case None
  then have "w' = w\<lparr>trace := trace w @
                 [Warned (''Trying to observe a child property of a primitive for identifier: ''
                          @ I)]\<rparr>"
    using assms by (simp add: observe_primitive_def Let_def)
  then show ?thesis by (simp add: warned_registers)
next
  case (Some l)
  let ?w1 = "w\<lparr>trace := trace w @
                 [Warned (''Trying to observe a child property of a primitive for identifier: ''
                          @ I)]\<rparr>"
  obtain w2 r where a: "addObservableListener ?w1 mid I l = (w2, r)" by (meson surj_pair)
  have res: "w' = w2" "res = Returned (Some r)"
    using assms Some a by (auto simp: observe_primitive_def Let_def)
  have r: "r = Remove mid (uid l) I" using a by (rule addObservableListener_registers(2))
  have "registers (\<lambda>m J x. m = mid \<and> J = I \<and> x = l) ?w1 w2"
    using a by (rule addObservableListener_registers(1))
  then have "registers (observed_entry mid observableListener res) ?w1 w2"
    by (rule registers_mono) (simp add: observed_entry_def covered_def res r Some)
  with warned_registers [of "observed_entry mid observableListener res" w] res
  show ?thesis by (auto intro: registers_trans)
qed

lemma observe_register_registers:
  assumes "observe_register w mid I observableListener c key h = (w', rr)"
  shows "registers
           (\<lambda>m J x. observableListener = Some x \<and> m = mid
                    \<and> (\<exists>r h'. rr = Returned (r, h') \<and> (mid, uid x, J) \<in> removes r)) w w'"
    (is "registers ?ok w w'")
proof -
  let ?w0 = "update_manager w mid (\<lambda>m. m\<lparr>observedIdentifier := None\<rparr>)"
  have r0: "registers ?ok w ?w0"
    by (rule same_identifiers_registers) simp_all
  obtain w1 g where g: "get_prop ?w0 c key = (w1, g)" by (meson surj_pair)
  have r1: "registers ?ok ?w0 w1"
    using g by (intro silent_registers) (rule get_prop_silent)
  show ?thesis
  proof (cases g)
    case (Thrown e)
    then have "w' = w1" using assms g by (simp add: observe_register_def andThen_def)
    with r0 r1 show ?thesis by (blast intro: registers_trans)
  next
    case (Returned v)
    let ?w2 = "update_manager w1 mid (\<lambda>m. m\<lparr>contextObjects := (contextObjects m)(I \<mapsto> v)\<rparr>)"
    have r2: "registers ?ok w1 ?w2"
      by (rule same_identifiers_registers) simp_all
    have r02: "registers ?ok w ?w2"
      using r0 r1 r2 by (blast intro: registers_trans)
    show ?thesis
    proof (cases observableListener)
      case None
      then have "w' = ?w2"
        using assms g Returned by (simp add: observe_register_def andThen_def Let_def)
      with r02 show ?thesis by simp
    next
      case (Some l)
      obtain w3 ra where a: "addObservableListener ?w2 mid I l = (w3, ra)" by (meson surj_pair)
      have ra: "ra = Remove mid (uid l) I" using a by (rule addObservableListener_registers(2))
      have r3: "registers (\<lambda>m J x. m = mid \<and> J = I \<and> x = l) ?w2 w3"
        using a by (rule addObservableListener_registers(1))
      have oi3: "observedIdentifier (instances ?w2 mid) = observedIdentifier (instances w1 mid)"
        by simp
      show ?thesis
      proof (cases "observedIdentifier (instances w1 mid)")
        case None
        then have e: "w' = w3" "rr = Returned (Both ra NoopRemove, h)"
          using assms g Returned Some a
          by (auto simp: observe_register_def andThen_def Let_def)
        have "registers ?ok ?w2 w3"
          using r3 by (rule registers_mono) (auto simp: e ra Some)
        with r02 e show ?thesis by (blast intro: registers_trans)
      next
        case oi: (Some oi)
        show ?thesis
        proof (cases "I = oi")
          case True
          then have e: "w' = w3" "rr = Returned (Both ra NoopRemove, True)"
            using assms g Returned Some a oi
            by (auto simp: observe_register_def andThen_def Let_def)
          have "registers ?ok ?w2 w3"
            using r3 by (rule registers_mono) (auto simp: e ra Some)
          with r02 e show ?thesis by (blast intro: registers_trans)
        next
          case False
          obtain w4 rb where b: "addObservableListener w3 mid oi l = (w4, rb)"
            by (meson surj_pair)
          have rb: "rb = Remove mid (uid l) oi"
            using b by (rule addObservableListener_registers(2))
          have r4: "registers (\<lambda>m J x. m = mid \<and> J = oi \<and> x = l) w3 w4"
            using b by (rule addObservableListener_registers(1))
          have e: "w' = w4" "rr = Returned (Both ra rb, True)"
            using assms g Returned Some a b oi False
            by (auto simp: observe_register_def andThen_def Let_def)
          have "registers ?ok ?w2 w3"
            using r3 by (rule registers_mono) (auto simp: e ra rb Some)
          moreover have "registers ?ok w3 w4"
            using r4 by (rule registers_mono) (auto simp: e ra rb Some)
          ultimately show ?thesis using r02 e by (blast intro: registers_trans)
        qed
      qed
    qed
  qed
qed


lemma reobserve_entry: "is_reobserve m J l \<Longrightarrow> observed_entry mid L res m J l"
  by (simp add: observed_entry_def)

lemma observed_entry_no_listener: "observed_entry mid None res m J l \<Longrightarrow> is_reobserve m J l"
  by (simp add: observed_entry_def)

lemma observed_entry_internal:
  "observed_entry mid (Some \<lparr>uid = u, listener = ReobserveArray u' j\<rparr>) res m J l \<Longrightarrow>
   is_reobserve m J l"
  by (auto simp: observed_entry_def is_reobserve_def)

lemma observe_registers_step:
  assumes IHg: "\<And>w mid w' res. butlast (split_dot I) \<noteq> [] \<Longrightarrow>
                  getImmediateContext w mid (join_dot (butlast (split_dot I))) = (w', res)
                  \<Longrightarrow> registers is_reobserve w w'"
    and IHo: "\<And>w mid L w' res. butlast (split_dot I) \<noteq> [] \<Longrightarrow>
                  observe w mid (join_dot (butlast (split_dot I))) L = (w', res)
                  \<Longrightarrow> registers (observed_entry mid L res) w w'"
    and o: "observe w mid I observableListener = (w', res)"
  shows "registers (observed_entry mid observableListener res) w w'"
    (is "registers ?ok w w'")
proof (cases "I = []")
  case True
  then have "w' = w" using o by (subst (asm) observe.simps) (simp add: isEmpty_string_def)
  then show ?thesis by simp
next
  case ne: False
  let ?P = "join_dot (butlast (split_dot I))"
  define first where "first =
    (if butlast (split_dot I) \<noteq> []
     then (if isNull (cached (instances w mid) ?P)
           then (case getImmediateContext w mid ?P of
                   (w1, Thrown e) \<Rightarrow> (w1, Thrown e)
                 | (w1, Returned c) \<Rightarrow>
                     (update_manager w1 mid
                        (\<lambda>m. m\<lparr>contextObjects := (contextObjects m)(?P \<mapsto> c)\<rparr>),
                      Returned c))
           else (w, Returned (cached (instances w mid) ?P)))
     else (w, Returned (context' (instances w mid))))"
  obtain w1 rc where f: "first = (w1, rc)" by (meson surj_pair)
  have r1: "registers ?ok w w1"
  proof (cases "butlast (split_dot I) \<noteq> [] \<and> isNull (cached (instances w mid) ?P)")
    case False
    then have "w1 = w" using f by (auto simp: first_def split: if_splits)
    then show ?thesis by simp
  next
    case True
    obtain wg rg where g: "getImmediateContext w mid ?P = (wg, rg)" by (meson surj_pair)
    have "registers is_reobserve w wg"
      using IHg [OF _ g] True by blast
    then have rg: "registers ?ok w wg"
      by (rule registers_mono) (rule reobserve_entry)
    show ?thesis
    proof (cases rg)
      case (Thrown e)
      then have "w1 = wg" using f g True by (simp add: first_def)
      with rg show ?thesis by simp
    next
      case (Returned c)
      then have "w1 = update_manager wg mid
                        (\<lambda>m. m\<lparr>contextObjects := (contextObjects m)(?P \<mapsto> c)\<rparr>)"
        using f g True by (simp add: first_def)
      moreover have "registers ?ok wg (update_manager wg mid
                        (\<lambda>m. m\<lparr>contextObjects := (contextObjects m)(?P \<mapsto> c)\<rparr>))"
        by (rule same_identifiers_registers) simp_all
      ultimately show ?thesis using rg by (blast intro: registers_trans)
    qed
  qed
  note o1 = o [unfolded observe.simps [of w mid I observableListener], folded first_def,
               unfolded f]
  show ?thesis
  proof (cases rc)
    case (Thrown e)
    then have "w' = w1" using o1 ne by (simp add: isEmpty_string_def)
    with r1 show ?thesis by simp
  next
    case (Returned c)
    show ?thesis
    proof (cases "isObject c \<or> isArray w1 c")
      case False
      then have "observe_primitive w1 mid I observableListener = (w', res)"
        using o1 ne Returned by (simp add: isEmpty_string_def)
      from observe_primitive_registers [OF this] r1 show ?thesis
        by (blast intro: registers_trans)
    next
      case obj: True
      obtain w2 rr where reg:
        "observe_register w1 mid I observableListener c (last (split_dot I))
           (hasIdentifier (instances w mid) I) = (w2, rr)" by (meson surj_pair)
      note rreg = observe_register_registers [OF reg]
      show ?thesis
      proof (cases rr)
        case (Thrown e)
        then have e: "w' = w2" "res = Thrown e"
          using o1 ne Returned obj reg by (auto simp: isEmpty_string_def)
        have "registers ?ok w1 w2"
          using rreg by (rule registers_mono) (simp add: Thrown)
        with r1 e show ?thesis by (blast intro: registers_trans)
      next
        case rr: (Returned p)
        obtain remove h' where p: "p = (remove, h')" by (cases p)
        have r2: "registers ?ok w1 w2" if "res = Returned (Some remove) \<or> (\<exists>e. res = Thrown e)"
          using rreg that
          by (elim registers_mono) (auto simp: rr p observed_entry_def covered_def)
        show ?thesis
        proof (cases h')
          case True
          then have e: "w' = w2" "res = Returned (Some remove)"
            using o1 ne Returned obj reg rr p by (auto simp: isEmpty_string_def)
          with r1 r2 show ?thesis by (blast intro: registers_trans)
        next
          case nh: False
          show ?thesis
          proof (cases "isArray w2 c \<and> last (split_dot I) = ''length''")
            case False
            obtain w3 rd where d: "define' w2 mid I c (last (split_dot I)) = (w3, rd)"
              by (meson surj_pair)
            have r3: "registers ?ok w2 w3"
              using d by (intro silent_registers) (rule define_silent)
            have e: "w' = w3" "res = Returned (Some remove) \<or> (\<exists>e. res = Thrown e)"
              using o1 ne Returned obj reg rr p nh False d
              by (cases rd; auto simp: isEmpty_string_def)+
            with r1 r2 r3 show ?thesis by (blast intro: registers_trans)
          next
            case arr: True
            show ?thesis
            proof (cases observableListener)
              case None
              then have e: "w' = w2" "res = Thrown TypeError"
                using o1 ne Returned obj reg rr p nh arr by (auto simp: isEmpty_string_def)
              with r1 r2 show ?thesis by (blast intro: registers_trans)
            next
              case (Some l)
              define inner where "inner =
                (if butlast (split_dot I) \<noteq> []
                 then observe w2 mid ?P
                        (Some \<lparr>uid = uid l, listener = ReobserveArray (uid l) ?P\<rparr>)
                 else (w2, Returned None))"
              obtain w3 r3 where i: "inner = (w3, r3)" by (meson surj_pair)
              have ri: "registers ?ok w2 w3"
              proof (cases "butlast (split_dot I) \<noteq> []")
                case False
                then show ?thesis using i by (simp add: inner_def)
              next
                case True
                then have "observe w2 mid ?P
                        (Some \<lparr>uid = uid l, listener = ReobserveArray (uid l) ?P\<rparr>) = (w3, r3)"
                  using i by (simp add: inner_def)
                from IHo [OF True this] show ?thesis
                  by (rule registers_mono)
                     (auto dest!: observed_entry_internal intro: reobserve_entry)
              qed
              have key: "last (split_dot I) = ''length''" and ia: "isArray w2 c"
                using arr by simp_all
              have o2: "(case inner of
                           (w3, Thrown e) \<Rightarrow> (w3, Thrown e)
                         | (w3, Returned x) \<Rightarrow>
                             (case observeArray w3 mid (uid l) Noop
                                     (if butlast (split_dot I) \<noteq> [] then ?P else ''undefined'')
                                     c VNull of
                                (w4, Thrown e) \<Rightarrow> (w4, Thrown e)
                              | (w4, Returned y) \<Rightarrow> (w4, Returned (Some remove))))
                        = (w', res)"
                using reg [unfolded key] ne Returned obj rr p nh ia Some o1 [unfolded key]
                by (cases "isObject c"; simp add: isEmpty_string_def inner_def)
              show ?thesis
              proof (cases r3)
                case (Thrown e)
                then have e: "w' = w3" "res = Thrown e"
                  using o2 i by auto
                with r1 r2 ri show ?thesis by (blast intro: registers_trans)
              next
                case r3: (Returned x)
                obtain w4 r4 where oa:
                  "observeArray w3 mid (uid l) Noop
                     (if butlast (split_dot I) \<noteq> [] then ?P else ''undefined'') c VNull
                   = (w4, r4)" by (meson surj_pair)
                have r4: "registers ?ok w3 w4"
                  using oa by (intro silent_registers) (rule observeArray_silent)
                have e: "w' = w4" "res = Returned (Some remove) \<or> (\<exists>e. res = Thrown e)"
                  using o2 i r3 oa by (cases r4; auto)+
                with r1 r2 ri r4 show ?thesis by (blast intro: registers_trans)
              qed
            qed
          qed
        qed
      qed
    qed
  qed
qed


lemma getImmediateContext_registers_step:
  assumes obs: "\<And>w mid L w' res. observe w mid I L = (w', res)
                  \<Longrightarrow> registers (observed_entry mid L res) w w'"
    and g: "getImmediateContext w mid I = (w', res)"
  shows "registers is_reobserve w w'"
proof -
  define first where "first =
    (if isNull_listeners (identifiers (instances w mid) I) then observe w mid I None
     else (w, Returned None))"
  obtain w1 r1 where f: "first = (w1, r1)" by (meson surj_pair)
  have r1: "registers is_reobserve w w1"
  proof (cases "isNull_listeners (identifiers (instances w mid) I)")
    case False
    then show ?thesis using f by (simp add: first_def)
  next
    case True
    then have "observe w mid I None = (w1, r1)" using f by (simp add: first_def)
    from obs [OF this] show ?thesis
      by (rule registers_mono) (rule observed_entry_no_listener)
  qed
  note g1 = g [unfolded getImmediateContext.simps [of w mid I], folded first_def, unfolded f]
  show ?thesis
  proof (cases r1)
    case (Thrown e)
    then have "w' = w1" using g1 by simp
    with r1 show ?thesis by simp
  next
    case (Returned x)
    then have "walk_context w1 (context' (instances w1 mid)) (split_dot I) = (w', res)"
      using g1 by simp
    then have "registers is_reobserve w1 w'"
      by (intro silent_registers) (rule walk_context_silent)
    with r1 show ?thesis by (rule registers_trans)
  qed
qed

lemma observe_registers_both:
  "(\<forall>w mid L w' res. observe w mid I L = (w', res)
       \<longrightarrow> registers (observed_entry mid L res) w w')
   \<and> (\<forall>w mid w' res. getImmediateContext w mid I = (w', res)
       \<longrightarrow> registers is_reobserve w w')"
proof (induction I rule: length_induct)
  case (1 I)
  let ?P = "join_dot (butlast (split_dot I))"
  have shorter: "length ?P < length I" if "butlast (split_dot I) \<noteq> []"
    using that by (rule parent_shorter)
  have obs: "registers (observed_entry mid L res) w w'"
    if "observe w mid I L = (w', res)" for w mid L w' res
    using _ _ that
  proof (rule observe_registers_step)
    show "registers is_reobserve w w'"
      if "butlast (split_dot I) \<noteq> []" "getImmediateContext w mid ?P = (w', res)"
      for w mid w' res
      using 1 shorter that by blast
    show "registers (observed_entry mid L res) w w'"
      if "butlast (split_dot I) \<noteq> []" "observe w mid ?P L = (w', res)"
      for w mid L w' res
      using 1 shorter that by blast
  qed
  have "registers is_reobserve w w'"
    if "getImmediateContext w mid I = (w', res)" for w mid w' res
    using obs that by (rule getImmediateContext_registers_step)
  with obs show ?case by blast
qed

lemma observe_registers:
  "observe w mid I L = (w', res) \<Longrightarrow> registers (observed_entry mid L res) w w'"
  using observe_registers_both by blast

section \<open>C4: observe, remove, assign\<close>

text \<open>The calls of callback \<open>c\<close> that a trace records.\<close>

definition calls_of :: "nat \<Rightarrow> event list \<Rightarrow> event list" where
  "calls_of c t =
     filter (\<lambda>e. case e of
                   Notified J n x y \<Rightarrow> n = c
                 | ArrayNotified u cb info \<Rightarrow> False
                 | Warned s \<Rightarrow> False) t"

lemma calls_of_append [simp]: "calls_of c (xs @ ys) = calls_of c xs @ calls_of c ys"
  by (simp add: calls_of_def)

lemma calls_of_warned [simp]: "calls_of c (map Warned ws) = []"
  by (induction ws) (simp_all add: calls_of_def)

lemma registers_calls_of:
  "registers ok w w' \<Longrightarrow> calls_of c (trace w') = calls_of c (trace w)"
  by (auto simp: registers_def)

lemma dispatches_calls_of:
  assumes "dispatches w w'" and "\<forall>J. \<not> registered w J c"
  shows "calls_of c (trace w') = calls_of c (trace w)"
proof -
  obtain es where es: "trace w' = trace w @ es" "list_all (listener_event w) es"
    using assms(1) by (auto simp: dispatches_def)
  have "calls_of c es = []"
    using es(2) assms(2)
    by (induction es) (auto simp: calls_of_def listener_event_def split: event.splits)
  with es(1) show ?thesis by simp
qed

lemma call_remove_fields [simp]:
  "trace (call_remove w r) = trace w"
  "faulty (call_remove w r) = faulty w"
  "heap (call_remove w r) = heap w"
  by (induction r arbitrary: w; simp)+

lemma extend_cases:
  assumes "extend old extra = Some ls" and "l \<in> set ls"
  shows "(\<exists>ls0. old = Some ls0 \<and> l \<in> set ls0) \<or> l \<in> set extra"
  using assms by (auto simp: extend_def split: if_splits option.splits)

lemma observe_remove_unregisters:
  assumes o: "observe w mid I (Some L) = (w1, Returned (Some r))"
    and L: "listener L = Callback c" and fresh: "\<forall>J. \<not> registered w J c"
  shows "\<forall>J. \<not> registered (call_remove w1 r) J c"
proof (intro allI notI)
  fix J
  assume "registered (call_remove w1 r) J c"
  then obtain m ls l where l: "identifiers (instances (call_remove w1 r) m) J = Some ls"
    "l \<in> set ls" "listener l = Callback c"
    by (auto simp: registered_def)
  from l(1) obtain ls1 where ls1: "identifiers (instances w1 m) J = Some ls1"
    "ls = filter (\<lambda>l. (m, uid l, J) \<notin> removes r) ls1"
    by (auto simp: call_remove_identifiers)
  have in1: "l \<in> set ls1" and kept: "(m, uid l, J) \<notin> removes r"
    using l(2) ls1(2) by auto
  from observe_registers [OF o] obtain extra where
    ex: "list_all (observed_entry mid (Some L) (Returned (Some r)) m J) extra"
    "identifiers (instances w1 m) J = extend (identifiers (instances w m) J) extra"
    unfolding registers_def by blast
  have "extend (identifiers (instances w m) J) extra = Some ls1"
    using ex(2) ls1(1) by simp
  from extend_cases [OF this in1]
  show False
  proof
    assume "\<exists>ls0. identifiers (instances w m) J = Some ls0 \<and> l \<in> set ls0"
    then have "registered w J c" using l(3) by (auto simp: registered_def)
    with fresh show False by blast
  next
    assume "l \<in> set extra"
    then have "observed_entry mid (Some L) (Returned (Some r)) m J l"
      using ex(1) by (simp add: list_all_iff)
    then show False
      using l(3) kept by (auto simp: observed_entry_def is_reobserve_def covered_def)
  qed
qed

text \<open>
  Claim C4. Let \<open>observe(I, L)\<close> return a remove function, and let that function be
  called at once. Then no registration with the uid of \<open>L\<close> is left on \<open>I\<close>; and when the
  callback of \<open>L\<close> was registered nowhere before, assigning any value to any intercepted
  property (the one at \<open>I\<close> among them) does not call it: the calls of the callback in the
  trace are those that were there before \<open>observe\<close>. An empty \<open>I\<close> is no case: \<open>observe\<close>
  returns no function for it.
\<close>

theorem unobserved_listener_not_invoked:
  assumes "observe w mid I (Some L) = (w1, Returned (Some r))"
  shows "(\<forall>ls. identifiers (instances (call_remove w1 r) mid) I = Some ls
            \<longrightarrow> (\<forall>l \<in> set ls. uid l \<noteq> uid L))
       \<and> (listener L = Callback c \<and> (\<forall>J. \<not> registered w J c)
          \<and> accessor_at (call_remove w1 r) a key = Some acc
          \<and> set_accessor (call_remove w1 r) a key acc v = (w3, res)
          \<longrightarrow> calls_of c (trace w3) = calls_of c (trace w))"
proof (intro conjI allI impI)
  fix ls
  assume "identifiers (instances (call_remove w1 r) mid) I = Some ls"
  then obtain ls1 where "ls = filter (\<lambda>l. (mid, uid l, I) \<notin> removes r) ls1"
    by (auto simp: call_remove_identifiers)
  moreover have "(mid, uid L, I) \<in> removes r"
    using observe_remover [OF assms] by simp
  ultimately show "\<forall>l \<in> set ls. uid l \<noteq> uid L" by auto
next
  assume h: "listener L = Callback c \<and> (\<forall>J. \<not> registered w J c)
          \<and> accessor_at (call_remove w1 r) a key = Some acc
          \<and> set_accessor (call_remove w1 r) a key acc v = (w3, res)"
  have u: "\<forall>J. \<not> registered (call_remove w1 r) J c"
    using assms h by (intro observe_remove_unregisters) auto
  have d: "dispatches (call_remove w1 r) w3"
    using h by (auto intro: set_accessor_dispatches)
  have "calls_of c (trace w3) = calls_of c (trace (call_remove w1 r))"
    using d u by (rule dispatches_calls_of)
  also have "\<dots> = calls_of c (trace w1)" by simp
  also have "\<dots> = calls_of c (trace w)"
    using observe_registers [OF assms] by (rule registers_calls_of)
  finally show "calls_of c (trace w3) = calls_of c (trace w)" .
qed


text \<open>
  \<^verbatim>\<open>remove = observe('a', {uid: 'u', listener: l2}); remove(); context.a = 7\<close> on
  \<open>demo_world\<close>.
\<close>

definition observed_once :: world where
  "observed_once = fst (observe demo_world 0 ''a'' (Some \<lparr>uid = ''u'', listener = Callback 2\<rparr>))"

theorem unobserved_listener_not_invoked_witness:
  "observe demo_world 0 ''a'' (Some \<lparr>uid = ''u'', listener = Callback 2\<rparr>)
     = (observed_once, Returned (Some (Both (Remove 0 ''u'' ''a'') NoopRemove)))
   \<and> (\<forall>J. \<not> registered demo_world J 2)
   \<and> accessor_at (call_remove observed_once (Both (Remove 0 ''u'' ''a'') NoopRemove)) 0 ''a''
       = Some \<lparr>acc_manager = 0, acc_identifier = ''a'', acc_value = VNum 1,
               acc_kind = PrimitiveAccessor True\<rparr>
   \<and> identifiers
        (instances (call_remove observed_once (Both (Remove 0 ''u'' ''a'') NoopRemove)) 0) ''a''
       = Some []
   \<and> calls_of 2
        (trace (fst (set_accessor
                       (call_remove observed_once (Both (Remove 0 ''u'' ''a'') NoopRemove))
                       0 ''a''
                       \<lparr>acc_manager = 0, acc_identifier = ''a'', acc_value = VNum 1,
                        acc_kind = PrimitiveAccessor True\<rparr>
                       (VNum 7)))) = []"
proof -
  let ?L = "\<lparr>uid = ''u'', listener = Callback 2\<rparr>"
  let ?r = "Both (Remove 0 ''u'' ''a'') NoopRemove"
  let ?acc = "\<lparr>acc_manager = 0, acc_identifier = ''a'', acc_value = VNum 1,
               acc_kind = PrimitiveAccessor True\<rparr>"
  have s: "snd (observe demo_world 0 ''a'' (Some ?L)) = Returned (Some ?r)"
    by code_simp
  have o: "observe demo_world 0 ''a'' (Some ?L) = (observed_once, Returned (Some ?r))"
    using s by (simp add: prod_eq_iff observed_once_def)
  have L: "listener ?L = Callback 2" by simp
  have fresh: "\<forall>J. \<not> registered demo_world J 2"
    by (simp add: registered_def demo_world_def new_manager_def)
  have a: "accessor_at (call_remove observed_once ?r) 0 ''a'' = Some ?acc"
    unfolding observed_once_def by code_simp
  have i: "identifiers (instances (call_remove observed_once ?r) 0) ''a'' = Some []"
    unfolding observed_once_def by code_simp
  have t: "calls_of 2 (trace demo_world) = []"
    by (simp add: calls_of_def demo_world_def)
  have e: "set_accessor (call_remove observed_once ?r) 0 ''a'' ?acc (VNum 7)
             = (fst (set_accessor (call_remove observed_once ?r) 0 ''a'' ?acc (VNum 7)),
                snd (set_accessor (call_remove observed_once ?r) 0 ''a'' ?acc (VNum 7)))"
    by simp
  show ?thesis
    using unobserved_listener_not_invoked [OF o, of 2 0 "''a''" ?acc "VNum 7"
            "fst (set_accessor (call_remove observed_once ?r) 0 ''a'' ?acc (VNum 7))"
            "snd (set_accessor (call_remove observed_once ?r) 0 ''a'' ?acc (VNum 7))"]
          o L fresh a i t e
    by simp
qed

section \<open>C3: the keys of the registry\<close>

text \<open>
  One step of a run of \<open>observe\<close> calls and calls of remove functions, on any manager.
\<close>

inductive step :: "world \<Rightarrow> world \<Rightarrow> bool" where
  observe_step: "observe w mid I observableListener = (w', res) \<Longrightarrow> step w w'"
| remove_step: "step w (call_remove w r)"

lemma extend_keeps_key: "old \<noteq> None \<Longrightarrow> extend old extra \<noteq> None"
  by (simp add: extend_def)

lemma step_keeps_key:
  assumes "step w w'" and "identifiers (instances w mid) J \<noteq> None"
  shows "identifiers (instances w' mid) J \<noteq> None"
  using assms
proof (cases rule: step.cases)
  case (observe_step m I l res)
  from observe_registers [OF this] obtain extra where
    "identifiers (instances w' mid) J = extend (identifiers (instances w mid) J) extra"
    unfolding registers_def by blast
  with assms(2) show ?thesis by (simp add: extend_keeps_key)
next
  case (remove_step r)
  with assms(2) show ?thesis by (simp add: call_remove_identifiers)
qed

lemma steps_keep_key:
  "step\<^sup>*\<^sup>* w w' \<Longrightarrow> identifiers (instances w mid) J \<noteq> None \<Longrightarrow>
   identifiers (instances w' mid) J \<noteq> None"
  by (induction rule: rtranclp_induct) (auto dest: step_keeps_key)

lemma remove_last_listener:
  assumes "identifiers (instances w mid) J = Some ls" and "\<forall>x \<in> set ls. uid x = u"
  shows "identifiers (instances (call_remove w (Remove mid u J)) mid) J = Some []"
    and "identifierHash (instances (call_remove w (Remove mid u J)) mid) J = None"
    and "contextObjects (instances (call_remove w (Remove mid u J)) mid) J = None"
    and "\<not> hasIdentifier (instances (call_remove w (Remove mid u J)) mid) J"
proof -
  have f: "filter (\<lambda>l. uid l \<noteq> u) ls = []"
    using assms(2) by (simp add: filter_empty_conv)
  show "identifiers (instances (call_remove w (Remove mid u J)) mid) J = Some []"
    using assms(1) f by (simp add: removeCallback_identifiers)
  then show "\<not> hasIdentifier (instances (call_remove w (Remove mid u J)) mid) J"
    by (simp add: hasIdentifier_def isEmpty_listeners_def)
  show "identifierHash (instances (call_remove w (Remove mid u J)) mid) J = None"
    and "contextObjects (instances (call_remove w (Remove mid u J)) mid) J = None"
    using assms(1) f
    by (simp_all add: removeCallback_def splice_matching_all Let_def isEmpty_listeners_def)
qed

text \<open>
  Claim C3, as the code has it. Through every run of \<open>observe\<close> calls and calls of
  remove functions a key of the registry, once bound, stays bound. \<open>__add\<close> leaves its
  key bound to a list that is not empty; removing the last listener of an identifier
  leaves the key bound to the empty list, which \<open>_hasIdentifier\<close> takes for an
  identifier that is not observed, and deletes the identifier's entry of the cascade
  index and its cached value.
\<close>

theorem registry_keys_stay_bound:
  "(step\<^sup>*\<^sup>* w w' \<and> identifiers (instances w mid) J \<noteq> None
      \<longrightarrow> identifiers (instances w' mid) J \<noteq> None)
   \<and> (\<exists>ls. identifiers (add m J l) J = Some (ls @ [l]))
   \<and> (identifiers (instances w mid) J = Some ls \<and> (\<forall>x \<in> set ls. uid x = u)
      \<longrightarrow> identifiers (instances (call_remove w (Remove mid u J)) mid) J = Some []
         \<and> identifierHash (instances (call_remove w (Remove mid u J)) mid) J = None
         \<and> contextObjects (instances (call_remove w (Remove mid u J)) mid) J = None
         \<and> \<not> hasIdentifier (instances (call_remove w (Remove mid u J)) mid) J)"
  using steps_keep_key [of w w' mid J] remove_last_listener [of w mid J ls u]
  by (auto simp: add_identifiers)

theorem registry_keys_stay_bound_witness:
  "step\<^sup>*\<^sup>* demo_world (call_remove observed_once (Remove 0 ''u'' ''a''))
   \<and> step\<^sup>*\<^sup>* observed_once (call_remove observed_once (Remove 0 ''u'' ''a''))
   \<and> identifiers (instances observed_once 0) ''a'' = Some [\<lparr>uid = ''u'', listener = Callback 2\<rparr>]
   \<and> identifiers (instances (call_remove observed_once (Remove 0 ''u'' ''a'')) 0) ''a'' = Some []
   \<and> identifierHash (instances (call_remove observed_once (Remove 0 ''u'' ''a'')) 0) ''a'' = None
   \<and> contextObjects (instances (call_remove observed_once (Remove 0 ''u'' ''a'')) 0) ''a'' = None
   \<and> \<not> hasIdentifier (instances (call_remove observed_once (Remove 0 ''u'' ''a'')) 0) ''a''"
proof -
  let ?L = "\<lparr>uid = ''u'', listener = Callback 2\<rparr>"
  let ?w2 = "call_remove observed_once (Remove 0 ''u'' ''a'')"
  have "observe demo_world 0 ''a'' (Some ?L)
          = (observed_once, snd (observe demo_world 0 ''a'' (Some ?L)))"
    by (simp add: observed_once_def)
  then have s1: "step demo_world observed_once" by (rule step.observe_step)
  have s2: "step observed_once ?w2" by (rule step.remove_step)
  have r1: "step\<^sup>*\<^sup>* demo_world ?w2" using s1 s2 by auto
  have r2: "step\<^sup>*\<^sup>* observed_once ?w2" using s2 by auto
  have i: "identifiers (instances observed_once 0) ''a'' = Some [?L]"
    unfolding observed_once_def by code_simp
  have u: "\<forall>x \<in> set [?L]. uid x = ''u''" by simp
  have n: "identifiers (instances observed_once 0) ''a'' \<noteq> None" using i by simp
  show ?thesis
    using registry_keys_stay_bound [of observed_once ?w2 0 "''a''" new_manager ?L "[?L]" "''u''"]
          r1 r2 i u n
    by simp
qed

text \<open>
  The claim fails: after \<^verbatim>\<open>remove = observe('a', {uid: 'u', listener: l2}); remove()\<close>
  the key \<^verbatim>\<open>a\<close> is in the registry, bound to the empty list.
\<close>

theorem empty_list_counterexample:
  "snd (observe demo_world 0 ''a'' (Some \<lparr>uid = ''u'', listener = Callback 2\<rparr>))
     = Returned (Some (Both (Remove 0 ''u'' ''a'') NoopRemove))
   \<and> identifiers
        (instances (call_remove
                      (fst (observe demo_world 0 ''a''
                              (Some \<lparr>uid = ''u'', listener = Callback 2\<rparr>)))
                      (Both (Remove 0 ''u'' ''a'') NoopRemove)) 0) ''a''
       = Some []"
  by code_simp

section \<open>What a call of an array method leaves alone\<close>

lemma only_observedIdentifier_fields:
  assumes "only_observedIdentifier w w'"
  shows "heap w' = heap w" "next_addr w' = next_addr w"
    "observedArrayListeners w' = observedArrayListeners w"
    "faulty w' = faulty w" "compat w' = compat w" "trace w' = trace w"
    "identifiers (instances w' mid) = identifiers (instances w mid)"
    "identifierHash (instances w' mid) = identifierHash (instances w mid)"
    "isArrayFunction (instances w' mid) = isArrayFunction (instances w mid)"
proof -
  have a: "w' = w\<lparr>instances := instances w'\<rparr>"
    and b: "instances w' mid =
               (instances w mid)\<lparr>observedIdentifier := observedIdentifier (instances w' mid)\<rparr>"
    using assms by (auto simp: only_observedIdentifier_def)
  show "heap w' = heap w" "next_addr w' = next_addr w"
    "observedArrayListeners w' = observedArrayListeners w"
    "faulty w' = faulty w" "compat w' = compat w" "trace w' = trace w"
    by (subst a, simp)+
  show "identifiers (instances w' mid) = identifiers (instances w mid)"
    "identifierHash (instances w' mid) = identifierHash (instances w mid)"
    "isArrayFunction (instances w' mid) = isArrayFunction (instances w mid)"
    by (subst b, simp)+
qed

lemma touch_fold_only:
  "only_observedIdentifier w
     (fold (\<lambda>i w'. case props ob (show_nat i) of None \<Rightarrow> w' | Some p \<Rightarrow> touch w' p) xs w)"
proof (induction xs arbitrary: w)
  case Nil
  show ?case by simp
next
  case (Cons x xs)
  show ?case
    by (cases "props ob (show_nat x)")
       (auto intro: Cons.IH only_observedIdentifier_trans [OF touch_only Cons.IH])
qed

lemma touch_elements_only: "only_observedIdentifier w (touch_elements w ob)"
  unfolding touch_elements_def by (rule touch_fold_only)

lemma slice0_fields:
  assumes "slice0 w ob = (w1, old)"
  shows "old = next_addr w" "next_addr w1 = Suc (next_addr w)"
    "observedArrayListeners w1 = observedArrayListeners w"
    "faulty w1 = faulty w" "compat w1 = compat w" "trace w1 = trace w"
    "identifiers (instances w1 mid) = identifiers (instances w mid)"
    "identifierHash (instances w1 mid) = identifierHash (instances w mid)"
    "isArrayFunction (instances w1 mid) = isArrayFunction (instances w mid)"
    "a \<noteq> next_addr w \<Longrightarrow> heap w1 a = heap w a"
    "length_of w1 (next_addr w) = arr_length ob"
  using assms only_observedIdentifier_fields [OF touch_elements_only [of w ob]]
  by (auto simp: slice0_def Let_def length_of_def)

lemma call_array_listener_fields:
  assumes "call_array_listener w u cb info = (w', r)"
  shows "instances w' = instances w" "faulty w' = faulty w" "heap w' = heap w"
    "observedArrayListeners w' = observedArrayListeners w"
    "trace w' = trace w @ [ArrayNotified u cb info]"
  using assms
  by (auto simp: call_array_listener_def Let_def split: array_listener.splits if_splits)

lemma call_array_listeners_fields:
  assumes "call_array_listeners w I ks info = (w', r)"
  shows "instances w' = instances w \<and> faulty w' = faulty w \<and> heap w' = heap w
         \<and> observedArrayListeners w' = observedArrayListeners w"
  using assms
proof (induction ks arbitrary: w)
  case Nil
  then show ?case by simp
next
  case (Cons k ks)
  show ?case
  proof (cases "map_of (observedArrayListeners w) I")
    case None
    with Cons.prems show ?thesis by simp
  next
    case (Some cbs)
    show ?thesis
    proof (cases "map_of cbs k")
      case None
      with Some Cons.prems show ?thesis by simp
    next
      case cb: (Some cb)
      obtain w1 r1 where c: "call_array_listener w k cb info = (w1, r1)"
        by (cases "call_array_listener w k cb info")
      note f = call_array_listener_fields [OF c]
      show ?thesis
      proof (cases r1)
        case (Thrown e)
        with Some cb c Cons.prems f show ?thesis by simp
      next
        case (Returned x)
        with Some cb c Cons.prems have "call_array_listeners w1 I ks info = (w', r)" by simp
        from Cons.IH [OF this] f show ?thesis by simp
      qed
    qed
  qed
qed

lemma apply_native_fields:
  assumes "apply_native native w meth this ob args = (w', r)"
  shows "instances w' = instances w" "faulty w' = faulty w" "trace w' = trace w"
    "observedArrayListeners w' = observedArrayListeners w"
  using assms by (auto simp: apply_native_def split: result.splits)

section \<open>The guard of the array methods\<close>

lemma dispatches_guard:
  "dispatches w w' \<Longrightarrow> isArrayFunction (instances w' mid) = isArrayFunction (instances w mid)"
  by (simp add: dispatches_def)

lemma notify_array_guard:
  assumes "notify_array w4 that I meth this old args r = (w', res)"
  shows "isArrayFunction (instances w' mid) = isArrayFunction (instances w4 mid)"
proof (cases "map_of (observedArrayListeners w4) I")
  case None
  with assms show ?thesis by (simp add: notify_array_def)
next
  case (Some callbacks)
  from assms Some have
    "andThen
       (if length_of w4 old \<noteq> length_of w4 this
        then execute w4 that (I @ ''.length'')
               (VNum (int (length_of w4 this))) (VNum (int (length_of w4 old)))
        else (w4, Returned ()))
       (\<lambda>w5 x.
          andThen
            (call_array_listeners w5 I (map fst callbacks)
               \<lparr>method' = meth, returnValue = r, oldArray = VRef old,
                newArray = VRef this, arguments = args\<rparr>)
            (\<lambda>w6 y. (w6, Returned r))) = (w', res)"
    by (simp add: notify_array_def)
  then show ?thesis
  proof (cases rule: andThenE)
    case (thrown w1 e)
    then show ?thesis
      by (auto split: if_splits dest!: execute_dispatches dispatches_guard)
  next
    case (returned w5 x)
    have g5: "isArrayFunction (instances w5 mid) = isArrayFunction (instances w4 mid)"
      using returned(1) by (auto split: if_splits dest!: execute_dispatches dispatches_guard)
    from returned(2) show ?thesis
    proof (cases rule: andThenE)
      case (thrown w6 e)
      with call_array_listeners_fields [OF thrown(1)] g5 show ?thesis by simp
    next
      case (returned w6 y)
      with call_array_listeners_fields [OF returned(1)] g5 show ?thesis by simp
    qed
  qed
qed

lemma guarded_native_throws:
  assumes "native meth (array_values ob) args = Thrown e"
  shows "guarded_native native w1 that I meth this ob old args =
           ((if has_substring ''shift'' meth
             then update_manager w1 that (\<lambda>m. m\<lparr>isArrayFunction := True\<rparr>) else w1),
            Thrown e)"
  using assms by (simp add: guarded_native_def apply_native_def andThen_def)

lemma guarded_native_returns:
  assumes "native meth (array_values ob) args = Returned (vals, r)"
    and "guarded_native native w1 that I meth this ob old args = (w4, res)"
  shows "isArrayFunction (instances w4 mid) =
           (if has_substring ''shift'' meth \<and> mid = that then False
            else isArrayFunction (instances w1 mid))"
proof (cases "has_substring ''shift'' meth")
  case False
  with assms show ?thesis by (auto simp: guarded_native_def apply_native_def)
next
  case True
  let ?w2 = "(update_manager w1 that (\<lambda>m. m\<lparr>isArrayFunction := True\<rparr>))
               \<lparr>heap := (heap w1)(this \<mapsto> store_values ob vals)\<rparr>"
  let ?w2' = "update_manager ?w2 that (\<lambda>m. m\<lparr>isArrayFunction := False\<rparr>)"
  have "andThen (notifyChildProperties ?w2' that I (VRef this) (VRef old))
          (\<lambda>w3 x. (w3, Returned r)) = (w4, res)"
    using assms True by (simp add: guarded_native_def apply_native_def andThen_def)
  then obtain r3 where "notifyChildProperties ?w2' that I (VRef this) (VRef old) = (w4, r3)"
    by (cases rule: andThenE) auto
  from dispatches_guard [OF notifyChildProperties_dispatches [OF this], of mid]
  show ?thesis using True by simp
qed


section \<open>An observed array\<close>

text \<open>
  The world \<open>demo_world\<close> after \<^verbatim>\<open>observe('items.length', {uid: 'u', listener: l2})\<close>
  on manager \<open>0\<close>, and that world after
  \<^verbatim>\<open>observeArray('v', l3, 'items', context.items, null)\<close>. The first call has
  registered the listener on \<^verbatim>\<open>items.length\<close> and, for the array itself, a listener
  on \<^verbatim>\<open>items\<close> that observes the array again when it is replaced, with \<open>noop\<close> in
  the table of the array listeners.
\<close>

definition items_array :: jsobject where
  "items_array =
     \<lparr>is_array = True,
      props = [''0'' \<mapsto> plain_property (VNum 1),
               ''1'' \<mapsto> plain_property (VNum 2),
               ''2'' \<mapsto> plain_property (VNum 3)],
      arr_length = 3,
      wrapper = Some \<lparr>ins_manager = 0, ins_identifier = ''items'', ins_via_prototype = True\<rparr>\<rparr>"

definition length_observed :: world where
  "length_observed =
     demo_world
       \<lparr>heap := (heap demo_world)
          (0 \<mapsto> \<lparr>is_array = False,
                 props = [''a'' \<mapsto> plain_property (VNum 1),
                          ''n'' \<mapsto> plain_property VNull,
                          ''items'' \<mapsto> \<lparr>slot = Accessor \<lparr>acc_manager = 0,
                                                       acc_identifier = ''items'',
                                                       acc_value = VRef 1,
                                                       acc_kind = ObjectAccessor\<rparr>,
                                       enumerable = True, configurable = True\<rparr>],
                 arr_length = 0, wrapper = None\<rparr>,
           1 \<mapsto> items_array),
        instances := (instances demo_world)
          (0 := new_manager
                 \<lparr>context' := VRef 0,
                  identifiers :=
                    [''items'' \<mapsto> [\<lparr>uid = ''u'', listener = ReobserveArray ''u'' ''items''\<rparr>],
                     ''items.length'' \<mapsto> [\<lparr>uid = ''u'', listener = Callback 2\<rparr>]],
                  identifierHash := [''items'' \<mapsto> [''items.length''], ''items.length'' \<mapsto> []],
                  contextObjects := [''items'' \<mapsto> VRef 1, ''items.length'' \<mapsto> VNum 3],
                  observedIdentifier := Some ''items''\<rparr>),
        controls := [''u'' \<mapsto> [(''items.length'', [0]), (''items'', [0])]],
        observedArrayListeners := [(''items'', [(''u'', Noop)])]\<rparr>"

definition observed_array :: world where
  "observed_array =
     length_observed
       \<lparr>observedArrayListeners := [(''items'', [(''u'', Noop), (''v'', ArrayCallback 3)])]\<rparr>"

text \<open>The second world is what \<open>observeArray\<close> makes of the first, where the functions below look.\<close>

lemma observed_array_observed:
  "(case observeArray length_observed 0 ''v'' (ArrayCallback 3) ''items'' (VRef 1) VNull of
      (w, r) \<Rightarrow>
        r = Returned ()
        \<and> map (identifiers (instances w 0)) [''items'', ''items.length'']
            = map (identifiers (instances observed_array 0)) [''items'', ''items.length'']
        \<and> map (identifierHash (instances w 0)) [''items'', ''items.length'']
            = map (identifierHash (instances observed_array 0)) [''items'', ''items.length'']
        \<and> isArrayFunction (instances w 0) = isArrayFunction (instances observed_array 0)
        \<and> observedArrayListeners w = observedArrayListeners observed_array
        \<and> map_option array_values (heap w 1) = map_option array_values (heap observed_array 1)
        \<and> map_option wrapper (heap w 1) = map_option wrapper (heap observed_array 1)
        \<and> accessor_at w 0 ''items'' = accessor_at observed_array 0 ''items''
        \<and> next_addr w = next_addr observed_array
        \<and> trace w = trace observed_array)"
  by code_simp

text \<open>
  The runtime's \<open>push\<close>, \<open>pop\<close>, \<open>shift\<close> and \<open>unshift\<close> on the values of the elements;
  the examples call no other method. On a frozen array every one of the seven methods
  throws a \<open>TypeError\<close>.
\<close>

definition runtime_methods :: native where
  "runtime_methods meth vals args =
     (if meth = ''push'' then Returned (vals @ args, VNum (int (length (vals @ args))))
      else if meth = ''unshift'' then Returned (args @ vals, VNum (int (length (args @ vals))))
      else if meth = ''pop''
      then Returned (if vals = [] then ([], VUndefined) else (butlast vals, last vals))
      else if meth = ''shift''
      then Returned (case vals of [] \<Rightarrow> ([], VUndefined) | v # vs \<Rightarrow> (vs, v))
      else Thrown TypeError)"

definition frozen :: native where
  "frozen meth vals args = Thrown TypeError"

lemma observed_array_items: "heap observed_array 1 = Some items_array"
  by (simp add: observed_array_def length_observed_def)


section \<open>C6: when the guard is set and cleared\<close>

text \<open>
  Claim C6, as the code has it. \<open>__isArrayFunction\<close> is set around the call of the
  runtime's method for \<open>shift\<close> and \<open>unshift\<close> only, and nothing catches what that call
  throws. When the runtime's method throws, the instrumented method throws the same
  exception, and the guard of the manager is left set if the method is \<open>shift\<close> or
  \<open>unshift\<close>, and is as it was before the call otherwise. When the runtime's method
  returns, the guard of the manager is cleared after a \<open>shift\<close> or \<open>unshift\<close>, whatever
  the listeners do afterwards; every other guard is as it was before the call.
\<close>

theorem array_guard:
  assumes "heap w this = Some ob"
  shows "(native meth (array_values ob) args = Thrown e \<longrightarrow>
            snd (observedArrayFn native w that I meth this args) = Thrown e
            \<and> isArrayFunction (instances (fst (observedArrayFn native w that I meth this args)) that)
                = (has_substring ''shift'' meth \<or> isArrayFunction (instances w that)))
       \<and> (native meth (array_values ob) args = Returned (vals, r) \<longrightarrow>
            isArrayFunction (instances (fst (observedArrayFn native w that I meth this args)) mid)
              = (if has_substring ''shift'' meth \<and> mid = that then False
                 else isArrayFunction (instances w mid)))"
proof -
  obtain w1 old where s: "slice0 w ob = (w1, old)" by (cases "slice0 w ob")
  note f = slice0_fields [OF s]
  have thrown: "snd (observedArrayFn native w that I meth this args) = Thrown e
            \<and> isArrayFunction (instances (fst (observedArrayFn native w that I meth this args)) that)
                = (has_substring ''shift'' meth \<or> isArrayFunction (instances w that))"
    if t: "native meth (array_values ob) args = Thrown e"
  proof -
    have "observedArrayFn native w that I meth this args =
            ((if has_substring ''shift'' meth
              then update_manager w1 that (\<lambda>m. m\<lparr>isArrayFunction := True\<rparr>) else w1), Thrown e)"
      using assms s guarded_native_throws [of native meth ob args e, OF t]
      by (simp add: observedArrayFn_def andThen_def)
    then show ?thesis using f(9) by simp
  qed
  have returned: "isArrayFunction (instances (fst (observedArrayFn native w that I meth this args)) mid)
              = (if has_substring ''shift'' meth \<and> mid = that then False
                 else isArrayFunction (instances w mid))"
    if t: "native meth (array_values ob) args = Returned (vals, r)"
  proof -
    obtain w' res where o: "observedArrayFn native w that I meth this args = (w', res)"
      by (cases "observedArrayFn native w that I meth this args")
    then have "andThen (guarded_native native w1 that I meth this ob old args)
                 (\<lambda>w4 r. notify_array w4 that I meth this old args r) = (w', res)"
      using assms s by (simp add: observedArrayFn_def)
    then have "isArrayFunction (instances w' mid)
                 = (if has_substring ''shift'' meth \<and> mid = that then False
                    else isArrayFunction (instances w1 mid))"
    proof (cases rule: andThenE)
      case (thrown w4 e')
      with guarded_native_returns [of native meth ob args vals r, OF t thrown(1)]
      show ?thesis by simp
    next
      case (returned w4 x)
      from notify_array_guard [OF returned(2)]
           guarded_native_returns [of native meth ob args vals r, OF t returned(1)]
      show ?thesis by simp
    qed
    then show ?thesis using o f(9) by simp
  qed
  from thrown returned show ?thesis by blast
qed

theorem array_guard_witness:
  "heap observed_array 1 = Some items_array
   \<and> frozen ''unshift'' (array_values items_array) [VNum 0] = Thrown TypeError
   \<and> snd (observedArrayFn frozen observed_array 0 ''items'' ''unshift'' 1 [VNum 0])
       = Thrown TypeError
   \<and> isArrayFunction
       (instances (fst (observedArrayFn frozen observed_array 0 ''items'' ''unshift'' 1 [VNum 0])) 0)
   \<and> runtime_methods ''shift'' (array_values items_array) []
       = Returned ([VNum 2, VNum 3], VNum 1)
   \<and> \<not> isArrayFunction
         (instances (fst (observedArrayFn runtime_methods observed_array 0 ''items'' ''shift'' 1 [])) 0)"
proof -
  have a: "heap observed_array 1 = Some items_array" by (rule observed_array_items)
  have t: "frozen ''unshift'' (array_values items_array) [VNum 0] = Thrown TypeError"
    by (simp add: frozen_def)
  have r: "runtime_methods ''shift'' (array_values items_array) []
             = Returned ([VNum 2, VNum 3], VNum 1)"
    by code_simp
  have s: "has_substring ''shift'' ''unshift''" "has_substring ''shift'' ''shift''"
    by code_simp+
  show ?thesis
    using array_guard [OF a, of frozen "''unshift''" "[VNum 0]" TypeError 0 "''items''"
                         "[]" VUndefined 0]
          array_guard [OF a, of runtime_methods "''shift''" "[]" TypeError 0 "''items''"
                         "[VNum 2, VNum 3]" "VNum 1" 0]
          a t r s
    by simp
qed

text \<open>
  The claim fails. The array is frozen, so that the runtime's methods throw: the call
  \<^verbatim>\<open>context.items.shift()\<close> throws and leaves the guard of the manager set, and during
  the call \<^verbatim>\<open>context.items.push(4)\<close> the guard is not set.
\<close>

theorem array_guard_counterexample:
  "\<not> isArrayFunction (instances observed_array 0)
   \<and> snd (call_method frozen observed_array 1 ''shift'' []) = Thrown TypeError
   \<and> isArrayFunction (instances (fst (call_method frozen observed_array 1 ''shift'' [])) 0)
   \<and> snd (call_method frozen observed_array 1 ''push'' [VNum 4]) = Thrown TypeError
   \<and> \<not> isArrayFunction (instances (fst (call_method frozen observed_array 1 ''push'' [VNum 4])) 0)"
  by code_simp

section \<open>C7: what the static dispose does to the context property\<close>















section \<open>The names of the indices\<close>









section \<open>What the cascade leaves alone\<close>


definition steady :: "world \<Rightarrow> world \<Rightarrow> bool" where
  "steady w w' = (dispatches w w' \<and> observedArrayListeners w' = observedArrayListeners w)"

lemma steady_refl [simp]: "steady w w"
  by (simp add: steady_def)


















definition children :: "world \<Rightarrow> mgr_id \<Rightarrow> string \<Rightarrow> string list" where
  "children w mid J = (case identifierHash (instances w mid) J of None \<Rightarrow> [] | Some ms \<Rightarrow> ms)"


section \<open>The events of a call of an array method\<close>


definition array_events :: "(string \<times> array_listener) list \<Rightarrow> IArrayMethodInfo \<Rightarrow> event list" where
  "array_events callbacks info = map (\<lambda>(u, cb). ArrayNotified u cb info) callbacks"


definition array_calls :: "event list \<Rightarrow> event list" where
  "array_calls es =
     filter (\<lambda>e. case e of ArrayNotified u cb info \<Rightarrow> True | _ \<Rightarrow> False) es"

lemma array_calls_append [simp]: "array_calls (xs @ ys) = array_calls xs @ array_calls ys"
  by (simp add: array_calls_def)

lemma array_calls_array_events [simp]: "array_calls (array_events cs info) = array_events cs info"
  by (induction cs) (auto simp: array_calls_def array_events_def)









lemma length_binding:
  "drop (length I + 1) (I @ ''.length'') = ''length''"
  by simp



lemma store_values_fields [simp]:
  "is_array (store_values ob vals) = is_array ob"
  "arr_length (store_values ob vals) = length vals"
  "wrapper (store_values ob vals) = wrapper ob"
  by (simp_all add: store_values_def)









section \<open>C5: the fan-out of an array method\<close>






end
